theory Spec2Isabelle
  imports Complex_Main "HOL-Library.AList"
begin

section \<open>Rate limiter (services/rateLimiter.ts)\<close>

text \<open>
  Timestamps are the millisecond readings of \<^verbatim>\<open>Date.now()\<close>; they and the configured
  cap are modelled as unbounded integers (the readings are far below \<open>2^53\<close>, where
  the doubles of the source are exact). Every call of \<^verbatim>\<open>Date.now()\<close> is a parameter
  \<open>now\<close> of the function that makes it, so two calls may see different readings.
\<close>

record RateLimiter =
  messageTimestamps :: "int list"
  maxMessagesPerHour :: int

definition windowMs :: int where
  "windowMs = 60 * 60 * 1000"

definition new_RateLimiter :: "int \<Rightarrow> RateLimiter" where
  "new_RateLimiter rateLimitPerHour =
     \<lparr>messageTimestamps = [], maxMessagesPerHour = rateLimitPerHour\<rparr>"

definition canSendMessage :: "int \<Rightarrow> RateLimiter \<Rightarrow> bool \<times> RateLimiter" where
  "canSendMessage now rl =
     (let rl = rl\<lparr>messageTimestamps :=
                  filter (\<lambda>timestamp. now - timestamp < windowMs) (messageTimestamps rl)\<rparr>
      in (int (length (messageTimestamps rl)) < maxMessagesPerHour rl, rl))"

definition recordMessageSent :: "int \<Rightarrow> RateLimiter \<Rightarrow> RateLimiter" where
  "recordMessageSent now rl = rl\<lparr>messageTimestamps := messageTimestamps rl @ [now]\<rparr>"

record Status =
  messagesInWindow :: int
  status_maxMessagesPerHour :: int
  remainingMessages :: int
  resetTime :: int

definition getStatus :: "int \<Rightarrow> RateLimiter \<Rightarrow> Status \<times> RateLimiter" where
  "getStatus now rl =
     (let rl = rl\<lparr>messageTimestamps :=
                  filter (\<lambda>timestamp. now - timestamp < windowMs) (messageTimestamps rl)\<rparr>;
          messagesInWindow = int (length (messageTimestamps rl));
          remainingMessages = max 0 (maxMessagesPerHour rl - messagesInWindow);
          resetTime = (if length (messageTimestamps rl) > 0
                       then messageTimestamps rl ! 0 + windowMs
                       else now)
      in (\<lparr>messagesInWindow = messagesInWindow,
           status_maxMessagesPerHour = maxMessagesPerHour rl,
           remainingMessages = remainingMessages,
           resetTime = resetTime\<rparr>, rl))"

text \<open>
  \<^verbatim>\<open>Math.ceil(x / d)\<close> for an integer \<open>x\<close> and a positive integer \<open>d\<close>, in integer
  arithmetic (\<open>div\<close> on \<open>int\<close> rounds towards minus infinity).
\<close>

definition Math_ceil_div :: "int \<Rightarrow> int \<Rightarrow> int" where
  "Math_ceil_div x d = - ((- x) div d)"

text \<open>
  \<open>getTimeUntilReset\<close> reads the clock twice: inside \<open>getStatus\<close> (\<open>now_status\<close>) and
  once more afterwards (\<open>now\<close>).
\<close>

definition getTimeUntilReset :: "int \<Rightarrow> int \<Rightarrow> RateLimiter \<Rightarrow> int \<times> RateLimiter" where
  "getTimeUntilReset now_status now rl =
     (let (status, rl) = getStatus now_status rl;
          timeUntilReset = resetTime status - now
      in (max 0 (Math_ceil_div timeUntilReset (1000 * 60)), rl))"

section \<open>Strings\<close>

text \<open>
  A JavaScript string is a sequence of UTF-16 code units, and a code unit is a natural
  number here (below \<open>2^16\<close> in the source). \<open>utf16\<close> gives the code units of a text
  written in ASCII.
\<close>

type_synonym jsstring = "nat list"

definition utf16 :: "string \<Rightarrow> jsstring" where
  "utf16 s = map of_char s"

text \<open>
  \<^verbatim>\<open>String.prototype.toLowerCase\<close>. The capital letters of ASCII go to the small ones.
  Two letters outside ASCII have a lower-case form with an ASCII letter in it: the
  Kelvin sign U+212A (k) and the capital I with a dot U+0130 (i, then U+0307). The
  lower-case forms of all other letters outside ASCII are outside ASCII again; such
  code units are left as they are, which does not change what a search for ASCII text
  finds.
\<close>

definition toLowerCaseUnit :: "nat \<Rightarrow> jsstring" where
  "toLowerCaseUnit u =
     (if 0x41 \<le> u \<and> u \<le> 0x5A then [u + 0x20]
      else if u = 0x212A then [0x6B]
      else if u = 0x130 then [0x69, 0x307]
      else [u])"

definition toLowerCase :: "jsstring \<Rightarrow> jsstring" where
  "toLowerCase s = concat (map toLowerCaseUnit s)"

definition startsWith :: "jsstring \<Rightarrow> jsstring \<Rightarrow> bool" where
  "startsWith s p = (take (length p) s = p)"

fun str_includes :: "jsstring \<Rightarrow> jsstring \<Rightarrow> bool" where
  "str_includes [] p = (p = [])"
| "str_includes (c # cs) p = (startsWith (c # cs) p \<or> str_includes cs p)"

text \<open>
  The code units that \<^verbatim>\<open>String.prototype.trim\<close> strips: the white space of ECMAScript
  (tab, vertical tab, form feed, the byte order mark U+FEFF and the space separators
  of Unicode: U+0020, U+00A0, U+1680, U+2000 to U+200A, U+202F, U+205F, U+3000) and
  its line terminators (line feed, carriage return, U+2028, U+2029).
\<close>

definition isWhiteSpace :: "nat \<Rightarrow> bool" where
  "isWhiteSpace u =
     (u \<in> set [0x09, 0x0A, 0x0B, 0x0C, 0x0D, 0x20, 0xA0, 0x1680,
                0x2000, 0x2001, 0x2002, 0x2003, 0x2004, 0x2005, 0x2006, 0x2007, 0x2008,
                0x2009, 0x200A, 0x2028, 0x2029, 0x202F, 0x205F, 0x3000, 0xFEFF])"

definition trim :: "jsstring \<Rightarrow> jsstring" where
  "trim s = rev (dropWhile isWhiteSpace (rev (dropWhile isWhiteSpace s)))"

fun join :: "jsstring \<Rightarrow> jsstring list \<Rightarrow> jsstring" where
  "join sep [] = []"
| "join sep [x] = x"
| "join sep (x # y # ys) = x @ sep @ join sep (y # ys)"

text \<open>Decimal rendering of a non-negative integer, as a template literal prints it.\<close>

fun show_nat :: "nat \<Rightarrow> jsstring" where
  "show_nat n =
     (if n < 10 then [0x30 + n]
      else show_nat (n div 10) @ [0x30 + n mod 10])"

declare show_nat.simps [simp del]

text \<open>
  \<^verbatim>\<open>(size / (1024 * 1024)).toFixed(1)\<close>: the division by \<open>2^20\<close> is exact in a double,
  and \<^verbatim>\<open>toFixed(1)\<close> prints the nearest multiple of one tenth, the larger one on a tie.
\<close>

definition sizeMB :: "nat \<Rightarrow> jsstring" where
  "sizeMB size_bytes =
     (let tenths = (size_bytes * 10 + 524288) div 1048576
      in show_nat (tenths div 10) @ utf16 ''.'' @ show_nat (tenths mod 10))"

text \<open>
  The test of \<^verbatim>\<open>/\bgorp\b/i\<close>. Without the flag \<^verbatim>\<open>u\<close>, the word characters (\<^verbatim>\<open>\w\<close>) are
  the letters and digits of ASCII and the underscore, and the flag \<^verbatim>\<open>i\<close> compares the
  canonical forms of the code units: a small ASCII letter has its capital as canonical
  form, and a code unit outside ASCII has a canonical form outside ASCII (it is left as
  it is here). The pattern matches when some occurrence of the four letters, in any
  case, has no word character right before it and none right after it. \<open>prevWord\<close>
  says whether the code unit before the current position is a word character.
\<close>

definition isWordChar :: "nat \<Rightarrow> bool" where
  "isWordChar u \<longleftrightarrow>
     (0x61 \<le> u \<and> u \<le> 0x7A) \<or> (0x41 \<le> u \<and> u \<le> 0x5A) \<or> (0x30 \<le> u \<and> u \<le> 0x39) \<or> u = 0x5F"

definition canonicalize :: "nat \<Rightarrow> nat" where
  "canonicalize u = (if 0x61 \<le> u \<and> u \<le> 0x7A then u - 0x20 else u)"

fun gorpPattern_from :: "bool \<Rightarrow> jsstring \<Rightarrow> bool" where
  "gorpPattern_from prevWord [] = False"
| "gorpPattern_from prevWord (c # cs) =
     ((\<not> prevWord \<and>
       map canonicalize (take 4 (c # cs)) = map canonicalize (utf16 ''gorp'') \<and>
       (case drop 4 (c # cs) of [] \<Rightarrow> True | d # _ \<Rightarrow> \<not> isWordChar d))
      \<or> gorpPattern_from (isWordChar c) cs)"

definition gorpPattern_test :: "jsstring \<Rightarrow> bool" where
  "gorpPattern_test s = gorpPattern_from False s"

section \<open>Messages and images (discord.js messages, utils/imageUtils.ts)\<close>

record Attachment =
  att_id :: jsstring
  att_name :: jsstring
  att_contentType :: "jsstring option"
  att_size :: nat
  att_url :: jsstring

record ImageData =
  img_name :: jsstring
  img_contentType :: jsstring
  img_url :: jsstring
  img_base64Data :: "jsstring option"
  img_size :: "nat option"
  img_error :: "jsstring option"

text \<open>
  A message as the tracker reads it. \<open>channel_name\<close> is \<open>Some n\<close> when the channel is
  text based and has a \<^verbatim>\<open>name\<close>; \<open>attachments\<close> lists the attachment collection in
  its order.
\<close>

record Message =
  msg_id :: jsstring
  author_id :: jsstring
  author_username :: jsstring
  content :: jsstring
  channel_id :: jsstring
  channel_name :: "jsstring option"
  attachments :: "Attachment list"

text \<open>
  What the outside world answers during one operation of the tracker: the download of
  an attachment (\<open>Inl\<close> the message of the error thrown, \<open>Inr\<close> the base64 payload), the
  Letta client's answer to a request (\<open>Inl\<close> the message of the error thrown, \<open>Inr\<close> the
  messages of the response), and the readings of \<^verbatim>\<open>Date.now()\<close> made while a digest is
  built and sent, one field for each call in the source.
\<close>

datatype MessageContent = Text jsstring | Parts "jsstring option list" | OtherContent

datatype LettaMessage = LettaMessage (messageType: jsstring) (messageContent: MessageContent)

record IO =
  fetch :: "Attachment \<Rightarrow> jsstring + jsstring"
  agents_messages_create :: "jsstring \<Rightarrow> ImageData list \<Rightarrow> jsstring + LettaMessage list"
  now_formatTimeRange :: int
  now_canSendMessage :: int
  now_getStatus :: int
  now_getTimeUntilReset_status :: int
  now_getTimeUntilReset :: int
  now_recordMessageSent :: int

definition allowedImageTypes :: "jsstring list" where
  "allowedImageTypes =
     [(utf16 ''image/jpeg''), (utf16 ''image/jpg''), (utf16 ''image/png''), (utf16 ''image/gif''),
      (utf16 ''image/webp''), (utf16 ''image/bmp''), (utf16 ''image/tiff''), (utf16 ''image/svg+xml'')]"

definition downloadAndEncodeImage :: "IO \<Rightarrow> Attachment \<Rightarrow> ImageData" where
  "downloadAndEncodeImage io attachment =
     (let attempt =
            (case att_contentType attachment of
               None \<Rightarrow> Inl (utf16 ''Not an image: null'')
             | Some contentType \<Rightarrow>
                 if \<not> startsWith contentType (utf16 ''image/'')
                 then Inl ((utf16 ''Not an image: '') @ contentType)
                 else if toLowerCase contentType \<notin> set allowedImageTypes
                 then Inl ((utf16 ''Unsupported image type: '') @ contentType)
                 else if att_size attachment > 5 * 1024 * 1024
                 then Inl ((utf16 ''Image too large: '') @ sizeMB (att_size attachment) @ (utf16 ''MB (max: 5MB)''))
                 else (case fetch io attachment of
                         Inl message \<Rightarrow> Inl message
                       | Inr base64Data \<Rightarrow>
                           Inr \<lparr>img_name = att_name attachment,
                                img_contentType = contentType,
                                img_url = att_url attachment,
                                img_base64Data = Some base64Data,
                                img_size = Some (att_size attachment),
                                img_error = None\<rparr>))
      in case attempt of
           Inr img \<Rightarrow> img
         | Inl message \<Rightarrow>
             \<lparr>img_name = att_name attachment,
              img_contentType =
                (case att_contentType attachment of
                   None \<Rightarrow> (utf16 ''unknown'')
                 | Some contentType \<Rightarrow> if contentType = [] then (utf16 ''unknown'') else contentType),
              img_url = att_url attachment,
              img_base64Data = None,
              img_size = None,
              img_error = Some message\<rparr>)"

text \<open>The download loop takes the image attachments three at a time, in order.\<close>

fun downloadBatches :: "IO \<Rightarrow> Attachment list \<Rightarrow> ImageData list" where
  "downloadBatches io imageAttachments =
     (if imageAttachments = [] then []
      else map (downloadAndEncodeImage io) (take 3 imageAttachments)
           @ downloadBatches io (drop 3 imageAttachments))"

declare downloadBatches.simps [simp del]

definition processImageAttachments :: "IO \<Rightarrow> Attachment list \<Rightarrow> ImageData list" where
  "processImageAttachments io atts =
     (let imageAttachments =
            filter (\<lambda>attachment.
                      case att_contentType attachment of
                        None \<Rightarrow> False
                      | Some contentType \<Rightarrow>
                          toLowerCase contentType \<noteq> [] \<and>
                          toLowerCase contentType \<in> set allowedImageTypes) atts
      in if length imageAttachments = 0 then [] else downloadBatches io imageAttachments)"

section \<open>Letta service (services/lettaService.ts)\<close>

fun assistantReply :: "LettaMessage list \<Rightarrow> jsstring" where
  "assistantReply [] = (utf16 ''Response received from Letta'')"
| "assistantReply (m # ms) =
     (if messageType m = (utf16 ''assistant_message'')
      then (case messageContent m of
              Text s \<Rightarrow> s
            | Parts cs \<Rightarrow> concat (map (\<lambda>c. case c of Some t \<Rightarrow> t | None \<Rightarrow> []) cs)
            | OtherContent \<Rightarrow> assistantReply ms)
      else assistantReply ms)"

text \<open>
  \<open>processQuery\<close> returns \<open>Inr\<close> the reply, or \<open>Inl\<close> the message of the error it throws
  when the request fails.
\<close>

definition processQuery :: "IO \<Rightarrow> jsstring \<Rightarrow> ImageData list \<Rightarrow> jsstring + jsstring" where
  "processQuery io query images =
     (let validImages =
            filter (\<lambda>img. img_base64Data img \<noteq> None \<and> img_base64Data img \<noteq> Some [] \<and>
                          (img_error img = None \<or> img_error img = Some [])) images
      in case agents_messages_create io query validImages of
           Inl errorMessage \<Rightarrow> Inl ((utf16 ''Failed to process query with Letta AI: '') @ errorMessage)
         | Inr response \<Rightarrow> Inr (assistantReply response))"

section \<open>Activity tracker (services/activityTracker.ts)\<close>

text \<open>
  A call that the source awaits (\<open>addPendingMessage\<close> in the classification, the
  request of a scheduled flush) is one step here and runs to its end; what other
  operations do while it is suspended is not part of this model. The call that the
  source does not await, \<open>sendBatchUpdate\<close> in the classification of a mention, runs
  up to its first \<^verbatim>\<open>await\<close> and is then kept in the tracker as a suspended flush,
  which goes on after the classification has returned. The timer that
  \<open>startBatchScheduler\<close> sets is the caller of \<open>processBatchUpdates\<close>.
\<close>

record PendingMessage =
  pm_text :: jsstring
  pm_images :: "ImageData list option"

record ChannelActivity =
  channelId :: jsstring
  lastGorpMention :: int
  lastGorpMessage :: int
  lastActivity :: int
  pendingMessages :: "PendingMessage list"
  isActive :: bool

text \<open>
  The Discord client as the tracker reads it: the id of the logged-in user
  (\<^verbatim>\<open>client.user?.id\<close>, \<open>None\<close> while there is no user) and, for a channel id, the name
  of the cached channel (\<open>None\<close> when the channel is not cached or has no name).
\<close>

record Client =
  user_id :: "jsstring option"
  cached_channel_name :: "jsstring \<Rightarrow> jsstring option"

text \<open>
  The lines the tracker writes to the console, each with the channel id and the
  numbers or the error message it prints.
\<close>

datatype log_event =
    GorpMessageDetected jsstring
  | InteractionTimeoutExpired jsstring
  | ProcessingAttachments nat
  | ImmediateRateLimitExceeded jsstring int
  | ImmediateBatchSent jsstring nat nat
  | ImmediateBatchFailed jsstring jsstring
  | ScheduledRateLimitExceeded jsstring int
  | ScheduledBatchSent jsstring nat nat
  | ScheduledBatchFailed jsstring jsstring

text \<open>
  A call of \<open>sendBatchUpdate\<close> that is suspended at an \<^verbatim>\<open>await\<close>. Its frame holds the
  activity object it was given (as the key of the object's entry in the table, and
  the object's \<^verbatim>\<open>channelId\<close>, which nothing writes) and the values of its local
  variables. It waits either for the images of the mention, whose attachments it
  has passed to \<open>processImageAttachments\<close>, or for the reply to the request it has made.
\<close>

record FlushFrame =
  fl_entry :: jsstring
  fl_channelId :: jsstring
  fl_messageCount :: nat
  fl_summary :: jsstring
  fl_allImages :: "ImageData list"

datatype SuspendedFlush =
    AwaitingImages FlushFrame "Attachment list"
  | AwaitingReply FlushFrame

text \<open>
  The tracker: the channel table (a \<^verbatim>\<open>Map\<close>, kept as the list of its entries in
  insertion order), the rate limiter it shares, its two timing constants in
  milliseconds, the console, the requests made to \<open>processQuery\<close> so far, and the
  flushes that were started without being awaited and have not come to their end.
\<close>

record ActivityTracker =
  channelActivities :: "(jsstring \<times> ChannelActivity) list"
  rateLimiter :: RateLimiter
  GORP_INTERACTION_TIMEOUT :: int
  BATCH_INTERVAL :: int
  console :: "log_event list"
  lettaRequests :: "(jsstring \<times> ImageData list) list"
  suspendedFlushes :: "SuspendedFlush list"

definition new_ActivityTracker :: "int \<Rightarrow> int \<Rightarrow> RateLimiter \<Rightarrow> ActivityTracker" where
  "new_ActivityTracker gorpInteractionTimeout batchInterval rl =
     \<lparr>channelActivities = [],
      rateLimiter = rl,
      GORP_INTERACTION_TIMEOUT = gorpInteractionTimeout * 60 * 1000,
      BATCH_INTERVAL = batchInterval * 60 * 1000,
      console = [],
      lettaRequests = [],
      suspendedFlushes = []\<rparr>"

definition isGorpMentioned :: "Client \<Rightarrow> Message \<Rightarrow> bool" where
  "isGorpMentioned cl message =
     (let content_lc = toLowerCase (content message);
          id = (case user_id cl of Some i \<Rightarrow> i | None \<Rightarrow> (utf16 ''undefined''));
          botMention = (utf16 ''<@'') @ id @ (utf16 ''>'');
          botMentionNick = (utf16 ''<@!'') @ id @ (utf16 ''>'')
      in if str_includes content_lc botMention \<or> str_includes content_lc botMentionNick
         then True
         else gorpPattern_test content_lc)"

text \<open>
  The attachments are a discord.js collection, a \<^verbatim>\<open>Map\<close> from attachment id to
  attachment, so the second argument of the \<^verbatim>\<open>forEach\<close> callback is the id, a string,
  and \<^verbatim>\<open>index + 1\<close> appends the character 1 to it.
\<close>

definition formatMessageWithImages :: "Message \<Rightarrow> jsstring \<Rightarrow> jsstring" where
  "formatMessageWithImages message channelName =
     (let formattedMessage =
            (utf16 ''[messageId: '') @ msg_id message @ (utf16 ''] '') @ author_username message
            @ (utf16 '' in '') @ channelName @ (utf16 '':'');
          formattedMessage =
            (if trim (content message) \<noteq> [] then formattedMessage @ (utf16 '' '') @ content message
             else formattedMessage);
          imageAttachments =
            filter (\<lambda>attachment.
                      case att_contentType attachment of
                        None \<Rightarrow> False
                      | Some contentType \<Rightarrow> startsWith contentType (utf16 ''image/''))
              (attachments message)
      in if length (attachments message) > 0 \<and> length imageAttachments > 0
         then formattedMessage @ (utf16 ''\<newline>[Images attached:'')
              @ concat (map (\<lambda>attachment.
                               (utf16 ''\<newline>  '') @ att_id attachment @ (utf16 ''1'') @ (utf16 ''. '') @ att_name attachment
                               @ (utf16 '' ('') @ (case att_contentType attachment of Some t \<Rightarrow> t | None \<Rightarrow> (utf16 ''null''))
                               @ (utf16 '', '')
                               @ sizeMB (att_size attachment) @ (utf16 ''MB) - '') @ att_url attachment)
                          imageAttachments)
              @ (utf16 '']'')
         else formattedMessage)"

text \<open>\<^verbatim>\<open>Array.prototype.slice(start)\<close>, where a negative start counts from the end.\<close>

definition slice :: "int \<Rightarrow> 'a list \<Rightarrow> 'a list" where
  "slice start xs =
     (let len = int (length xs);
          k = (if start < 0 then max (len + start) 0 else min start len)
      in drop (nat k) xs)"

text \<open>
  The entry that \<open>addPendingMessage\<close> builds for a message, and \<open>addPendingMessage\<close>.
  The images are fetched between the formatting and the building of the entry; the
  line on the console is written before they are.
\<close>

definition pendingMessageOf :: "IO \<Rightarrow> Message \<Rightarrow> PendingMessage" where
  "pendingMessageOf io message =
     (let channelName = (case channel_name message of Some n \<Rightarrow> (utf16 ''#'') @ n | None \<Rightarrow> (utf16 ''DM''));
          formattedText = formatMessageWithImages message channelName;
          imageData =
            (if length (attachments message) > 0
             then processImageAttachments io (attachments message)
             else [])
      in \<lparr>pm_text = formattedText,
          pm_images = (if length imageData > 0 then Some imageData else None)\<rparr>)"

definition addPendingMessage ::
  "IO \<Rightarrow> ChannelActivity \<Rightarrow> Message \<Rightarrow> ActivityTracker \<Rightarrow> ChannelActivity \<times> ActivityTracker" where
  "addPendingMessage io activity message tr =
     (if trim (content message) = [] \<and> length (attachments message) = 0 then (activity, tr)
      else
        let tr =
              (if length (attachments message) > 0
               then tr\<lparr>console := console tr
                                  @ [ProcessingAttachments (length (attachments message))]\<rparr>
               else tr);
            pendingMessage = pendingMessageOf io message;
            activity = activity\<lparr>pendingMessages := pendingMessages activity @ [pendingMessage]\<rparr>;
            activity =
              (if length (pendingMessages activity) > 50
               then activity\<lparr>pendingMessages := slice (- 50) (pendingMessages activity)\<rparr>
               else activity)
        in (activity, tr))"

definition formatTimeRange :: "int \<Rightarrow> int \<Rightarrow> jsstring" where
  "formatTimeRange now lastActivity_ms =
     (let diff = now - lastActivity_ms;
          minutes = diff div (1000 * 60)
      in if minutes < 1 then (utf16 ''few seconds'')
         else if minutes = 1 then (utf16 ''1 minute'')
         else show_nat (nat minutes) @ (utf16 '' minutes''))"

text \<open>
  The digest of a channel's pending messages, which \<open>createBatchSummary\<close> returns for a
  queue that is not empty. \<open>sendBatchUpdate\<close> builds the same text inline and appends
  the mention to it.
\<close>

definition batchSummaryText :: "Client \<Rightarrow> int \<Rightarrow> ChannelActivity \<Rightarrow> jsstring" where
  "batchSummaryText cl now activity =
     (let channelName =
            (case cached_channel_name cl (channelId activity) of
               Some n \<Rightarrow> (utf16 ''#'') @ n
             | None \<Rightarrow> (utf16 ''Unknown Channel''));
          messageCount = length (pendingMessages activity);
          timeRange = formatTimeRange now (lastActivity activity)
      in (utf16 ''[Discord Batch Update] '') @ show_nat messageCount @ (utf16 '' messages in '') @ channelName
         @ (utf16 '' over the past '') @ timeRange @ (utf16 '':\<newline>\<newline>'')
         @ join (utf16 ''\<newline>'') (map pm_text (pendingMessages activity)))"

definition createBatchSummary :: "Client \<Rightarrow> int \<Rightarrow> ChannelActivity \<Rightarrow> jsstring option" where
  "createBatchSummary cl now activity =
     (if length (pendingMessages activity) = 0 then None
      else Some (batchSummaryText cl now activity))"

definition pendingImages :: "ChannelActivity \<Rightarrow> ImageData list" where
  "pendingImages activity =
     concat (map (\<lambda>msg. case pm_images msg of Some imgs \<Rightarrow> imgs | None \<Rightarrow> [])
               (pendingMessages activity))"

text \<open>
  \<open>sendBatchUpdate\<close>, the flush a mention triggers. \<open>mentionSummary\<close> is the text it
  builds, the digest of the queue with the mention appended; \<open>mentionDigest\<close> is that
  text with the images it has when it asks the rate limiter: those of the queue, then
  those of the mention.
\<close>

definition mentionSummary :: "Client \<Rightarrow> IO \<Rightarrow> ChannelActivity \<Rightarrow> Message \<Rightarrow> jsstring" where
  "mentionSummary cl io activity mentionMessage =
     (let summary = batchSummaryText cl (now_formatTimeRange io) activity;
          mentionChannelName =
            (case channel_name mentionMessage of Some n \<Rightarrow> (utf16 ''#'') @ n | None \<Rightarrow> (utf16 ''DM''));
          mentionFormatted =
            (utf16 ''\<newline>\<newline>--- MENTION ---\<newline>'')
            @ formatMessageWithImages mentionMessage mentionChannelName
      in summary @ mentionFormatted)"

definition mentionDigest ::
  "Client \<Rightarrow> IO \<Rightarrow> ChannelActivity \<Rightarrow> Message \<Rightarrow> jsstring \<times> ImageData list" where
  "mentionDigest cl io activity mentionMessage =
     (let summary = mentionSummary cl io activity mentionMessage;
          allImages = pendingImages activity;
          allImages =
            (if length (attachments mentionMessage) > 0
             then allImages @ processImageAttachments io (attachments mentionMessage)
             else allImages)
      in (summary, allImages))"

text \<open>
  The whole of \<open>sendBatchUpdate\<close>, from its call to its end, as it runs when it is
  awaited and nothing else runs meanwhile. The body of its \<^verbatim>\<open>try\<close> block either
  returns early on a denied admission, or calls \<open>processQuery\<close>; an error thrown there
  (\<open>Inl\<close>) goes to the \<^verbatim>\<open>catch\<close> block, which logs it. What was done before the error
  (the purge of the rate limiter) stays done.
\<close>

definition sendBatchUpdate ::
  "Client \<Rightarrow> IO \<Rightarrow> ChannelActivity \<Rightarrow> Message \<Rightarrow> ActivityTracker
     \<Rightarrow> ChannelActivity \<times> ActivityTracker" where
  "sendBatchUpdate cl io activity mentionMessage tr =
     (let messageCount = length (pendingMessages activity);
          (summary, allImages) = mentionDigest cl io activity mentionMessage;
          (admitted, rl) = canSendMessage (now_canSendMessage io) (rateLimiter tr);
          tr = tr\<lparr>rateLimiter := rl\<rparr>
      in if \<not> admitted then
           let (status, rl) = getStatus (now_getStatus io) (rateLimiter tr);
               (timeUntilReset, rl) =
                 getTimeUntilReset (now_getTimeUntilReset_status io) (now_getTimeUntilReset io) rl
           in (activity,
               tr\<lparr>rateLimiter := rl,
                  console := console tr
                    @ [ImmediateRateLimitExceeded (channelId activity) timeUntilReset]\<rparr>)
         else
           let tr = tr\<lparr>lettaRequests := lettaRequests tr @ [(summary, allImages)]\<rparr>
           in case processQuery io summary allImages of
                Inl error \<Rightarrow>
                  (activity,
                   tr\<lparr>console := console tr
                        @ [ImmediateBatchFailed (channelId activity) error]\<rparr>)
              | Inr response \<Rightarrow>
                  (activity\<lparr>pendingMessages := []\<rparr>,
                   tr\<lparr>rateLimiter :=
                        recordMessageSent (now_recordMessageSent io) (rateLimiter tr),
                      console := console tr
                        @ [ImmediateBatchSent (channelId activity) messageCount
                             (length allImages)]\<rparr>))"

text \<open>
  The same body in the pieces between which it is suspended when it is not awaited.
  \<open>sendBatchUpdate_check\<close> is the part from the rate-limit check to the call of
  \<open>processQuery\<close>: a denied admission ends the flush, an admitted one makes the
  request and waits for the reply. \<open>sendBatchUpdate_start\<close> is the part that runs
  inside the caller, up to the first \<^verbatim>\<open>await\<close>: it builds the text and collects the
  images of the queue, then waits for the images of the mention if the mention has
  attachments, and goes on to the check otherwise. It writes nothing to the activity
  object. \<open>cid\<close> is the key of the entry that holds the object.
\<close>

definition sendBatchUpdate_check :: "IO \<Rightarrow> FlushFrame \<Rightarrow> ActivityTracker \<Rightarrow> ActivityTracker" where
  "sendBatchUpdate_check io frame tr =
     (let (admitted, rl) = canSendMessage (now_canSendMessage io) (rateLimiter tr);
          tr = tr\<lparr>rateLimiter := rl\<rparr>
      in if \<not> admitted then
           let (status, rl) = getStatus (now_getStatus io) (rateLimiter tr);
               (timeUntilReset, rl) =
                 getTimeUntilReset (now_getTimeUntilReset_status io) (now_getTimeUntilReset io) rl
           in tr\<lparr>rateLimiter := rl,
                 console := console tr
                   @ [ImmediateRateLimitExceeded (fl_channelId frame) timeUntilReset]\<rparr>
         else
           tr\<lparr>lettaRequests := lettaRequests tr @ [(fl_summary frame, fl_allImages frame)],
              suspendedFlushes := suspendedFlushes tr @ [AwaitingReply frame]\<rparr>)"

definition sendBatchUpdate_start ::
  "Client \<Rightarrow> IO \<Rightarrow> jsstring \<Rightarrow> ChannelActivity \<Rightarrow> Message \<Rightarrow> ActivityTracker \<Rightarrow> ActivityTracker" where
  "sendBatchUpdate_start cl io cid activity mentionMessage tr =
     (let frame =
            \<lparr>fl_entry = cid,
             fl_channelId = channelId activity,
             fl_messageCount = length (pendingMessages activity),
             fl_summary = mentionSummary cl io activity mentionMessage,
             fl_allImages = pendingImages activity\<rparr>
      in if length (attachments mentionMessage) > 0
         then tr\<lparr>suspendedFlushes := suspendedFlushes tr
                    @ [AwaitingImages frame (attachments mentionMessage)]\<rparr>
         else sendBatchUpdate_check io frame tr)"

text \<open>
  How a suspended flush goes on. With the images of the mention it goes to the
  check. With the reply to its request it records the send in the rate limiter, logs
  it and empties the queue of its activity object, whatever the queue holds by then;
  with an error instead of a reply it logs the failure and leaves the queue. The
  table never loses an entry, so the object is found under its key.
\<close>

definition sendBatchUpdate_resume :: "IO \<Rightarrow> SuspendedFlush \<Rightarrow> ActivityTracker \<Rightarrow> ActivityTracker" where
  "sendBatchUpdate_resume io flush tr =
     (case flush of
        AwaitingImages frame mentionAttachments \<Rightarrow>
          sendBatchUpdate_check io
            (frame\<lparr>fl_allImages := fl_allImages frame @ processImageAttachments io mentionAttachments\<rparr>)
            tr
      | AwaitingReply frame \<Rightarrow>
          (case processQuery io (fl_summary frame) (fl_allImages frame) of
             Inl error \<Rightarrow>
               tr\<lparr>console := console tr @ [ImmediateBatchFailed (fl_channelId frame) error]\<rparr>
           | Inr response \<Rightarrow>
               let tr = tr\<lparr>rateLimiter :=
                              recordMessageSent (now_recordMessageSent io) (rateLimiter tr),
                            console := console tr
                              @ [ImmediateBatchSent (fl_channelId frame) (fl_messageCount frame)
                                   (length (fl_allImages frame))]\<rparr>
               in case map_of (channelActivities tr) (fl_entry frame) of
                    None \<Rightarrow> tr
                  | Some activity \<Rightarrow>
                      tr\<lparr>channelActivities :=
                           AList.update (fl_entry frame) (activity\<lparr>pendingMessages := []\<rparr>)
                             (channelActivities tr)\<rparr>))"

text \<open>
  The suspended flushes run to their end, the oldest first, while nothing else uses
  the tracker; \<open>io\<close> is what the outside world answers to them. A flush is resumed at
  most twice, so this ends; \<open>flushSteps\<close> counts the resumptions a flush still needs
  at most.
\<close>

fun flushSteps :: "SuspendedFlush \<Rightarrow> nat" where
  "flushSteps (AwaitingImages frame mentionAttachments) = 2"
| "flushSteps (AwaitingReply frame) = 1"

function settleFlushes :: "IO \<Rightarrow> ActivityTracker \<Rightarrow> ActivityTracker" where
  "settleFlushes io tr =
     (case suspendedFlushes tr of
        [] \<Rightarrow> tr
      | flush # flushes \<Rightarrow>
          settleFlushes io (sendBatchUpdate_resume io flush (tr\<lparr>suspendedFlushes := flushes\<rparr>)))"
  by pat_completeness auto

termination
proof (relation "measure (\<lambda>(io, tr). sum_list (map flushSteps (suspendedFlushes tr)))")
  show "wf (measure (\<lambda>(io, tr). sum_list (map flushSteps (suspendedFlushes tr))))"
    by simp
next
  fix io :: IO and tr :: ActivityTracker and flush flushes
  assume "suspendedFlushes tr = flush # flushes"
  then show "((io, sendBatchUpdate_resume io flush (tr\<lparr>suspendedFlushes := flushes\<rparr>)), (io, tr))
               \<in> measure (\<lambda>(io, tr). sum_list (map flushSteps (suspendedFlushes tr)))"
    by (cases flush)
       (auto simp: sendBatchUpdate_resume_def sendBatchUpdate_check_def Let_def
             split: prod.splits sum.splits option.splits)
qed

declare settleFlushes.simps [simp del]

definition getOrCreateChannelActivity ::
  "jsstring \<Rightarrow> ActivityTracker \<Rightarrow> ChannelActivity \<times> ActivityTracker" where
  "getOrCreateChannelActivity cid tr =
     (case map_of (channelActivities tr) cid of
        Some activity \<Rightarrow> (activity, tr)
      | None \<Rightarrow>
          (let activity =
                 \<lparr>channelId = cid, lastGorpMention = 0, lastGorpMessage = 0, lastActivity = 0,
                  pendingMessages = [], isActive = False\<rparr>
           in (activity,
               tr\<lparr>channelActivities := channelActivities tr @ [(cid, activity)]\<rparr>)))"

text \<open>
  The source mutates the activity object that the table holds. The model works on a
  copy and \<open>storeChannelActivity\<close> puts it back in the entry's place.
\<close>

definition storeChannelActivity ::
  "jsstring \<Rightarrow> ChannelActivity \<Rightarrow> ActivityTracker \<Rightarrow> ActivityTracker" where
  "storeChannelActivity cid activity tr =
     tr\<lparr>channelActivities := AList.update cid activity (channelActivities tr)\<rparr>"

text \<open>A JavaScript number that may be \<^verbatim>\<open>Infinity\<close>, and its comparison with a finite one.\<close>

datatype js_number = Finite int | Infinity

fun js_less :: "js_number \<Rightarrow> int \<Rightarrow> bool" where
  "js_less (Finite a) b = (a < b)"
| "js_less Infinity b = False"

text \<open>
  \<open>shouldForwardImmediately\<close>, up to its return. On a mention with a queue that is not
  empty it starts \<open>sendBatchUpdate\<close> without awaiting it, so only the part of the flush
  before its first \<^verbatim>\<open>await\<close> has run when the two stamps are written and \<^verbatim>\<open>true\<close> is
  returned; the rest is left suspended in the tracker.
\<close>

definition shouldForwardImmediately ::
  "Client \<Rightarrow> IO \<Rightarrow> int \<Rightarrow> Message \<Rightarrow> ActivityTracker \<Rightarrow> bool \<times> ActivityTracker" where
  "shouldForwardImmediately cl io now message tr =
     (let cid = channel_id message;
          (activity, tr) = getOrCreateChannelActivity cid tr;
          activity = activity\<lparr>lastActivity := now\<rparr>
      in if isGorpMentioned cl message then
           let tr =
                 (if length (pendingMessages activity) > 0
                  then sendBatchUpdate_start cl io cid activity message tr
                  else tr);
               activity = activity\<lparr>lastGorpMention := now, isActive := True\<rparr>
           in (True, storeChannelActivity cid activity tr)
         else if Some (author_id message) = user_id cl then
           let activity = activity\<lparr>lastGorpMessage := now, isActive := True\<rparr>;
               tr = tr\<lparr>console := console tr @ [GorpMessageDetected cid]\<rparr>
           in (True, storeChannelActivity cid activity tr)
         else
           let timeSinceLastGorpMention =
                 (if lastGorpMention activity > 0 then Finite (now - lastGorpMention activity)
                  else Infinity);
               timeSinceLastGorpMessage =
                 (if lastGorpMessage activity > 0 then Finite (now - lastGorpMessage activity)
                  else Infinity);
               isWithinMentionTimeout =
                 js_less timeSinceLastGorpMention (GORP_INTERACTION_TIMEOUT tr);
               isWithinMessageTimeout =
                 js_less timeSinceLastGorpMessage (GORP_INTERACTION_TIMEOUT tr)
           in if isWithinMentionTimeout \<or> isWithinMessageTimeout then
                (True, storeChannelActivity cid (activity\<lparr>isActive := True\<rparr>) tr)
              else
                let activity = activity\<lparr>isActive := False\<rparr>;
                    tr = tr\<lparr>console := console tr @ [InteractionTimeoutExpired cid]\<rparr>;
                    (activity, tr) = addPendingMessage io activity message tr
                in (False, storeChannelActivity cid activity tr))"

text \<open>
  The body of the loop of \<open>processBatchUpdates\<close> for one entry of the table, and the
  loop itself. \<open>now\<close> is read once, before the loop; \<open>ios\<close> gives, for each channel,
  what the outside world answers while its digest is handled.
\<close>

definition processChannel ::
  "Client \<Rightarrow> IO \<Rightarrow> int \<Rightarrow> jsstring \<Rightarrow> ChannelActivity \<Rightarrow> ActivityTracker
     \<Rightarrow> ChannelActivity \<times> ActivityTracker" where
  "processChannel cl io now cid activity tr =
     (if length (pendingMessages activity) = 0 then (activity, tr)
      else if isActive activity then (activity, tr)
      else if now - lastActivity activity > BATCH_INTERVAL tr then (activity, tr)
      else
        case createBatchSummary cl (now_formatTimeRange io) activity of
          None \<Rightarrow> (activity, tr)
        | Some summary \<Rightarrow>
            let (admitted, rl) = canSendMessage (now_canSendMessage io) (rateLimiter tr);
                tr = tr\<lparr>rateLimiter := rl\<rparr>
            in if \<not> admitted then
                 let (status, rl) = getStatus (now_getStatus io) (rateLimiter tr);
                     (timeUntilReset, rl) =
                       getTimeUntilReset (now_getTimeUntilReset_status io)
                         (now_getTimeUntilReset io) rl
                 in (activity,
                     tr\<lparr>rateLimiter := rl,
                        console := console tr @ [ScheduledRateLimitExceeded cid timeUntilReset]\<rparr>)
               else
                 let allImages = pendingImages activity;
                     tr = tr\<lparr>lettaRequests := lettaRequests tr @ [(summary, allImages)]\<rparr>
                 in case processQuery io summary allImages of
                      Inl error \<Rightarrow>
                        (activity,
                         tr\<lparr>console := console tr @ [ScheduledBatchFailed cid error]\<rparr>)
                    | Inr response \<Rightarrow>
                        (activity\<lparr>pendingMessages := []\<rparr>,
                         tr\<lparr>rateLimiter :=
                              recordMessageSent (now_recordMessageSent io) (rateLimiter tr),
                            console := console tr
                              @ [ScheduledBatchSent cid (length (pendingMessages activity))
                                   (length allImages)]\<rparr>))"

fun processEntries ::
  "Client \<Rightarrow> (jsstring \<Rightarrow> IO) \<Rightarrow> int \<Rightarrow> (jsstring \<times> ChannelActivity) list \<Rightarrow> ActivityTracker
     \<Rightarrow> (jsstring \<times> ChannelActivity) list \<times> ActivityTracker" where
  "processEntries cl ios now [] tr = ([], tr)"
| "processEntries cl ios now ((cid, activity) # entries) tr =
     (let (activity, tr) = processChannel cl (ios cid) now cid activity tr;
          (entries, tr) = processEntries cl ios now entries tr
      in ((cid, activity) # entries, tr))"

definition processBatchUpdates ::
  "Client \<Rightarrow> (jsstring \<Rightarrow> IO) \<Rightarrow> int \<Rightarrow> ActivityTracker \<Rightarrow> ActivityTracker" where
  "processBatchUpdates cl ios now tr =
     (let (entries, tr) = processEntries cl ios now (channelActivities tr) tr
      in tr\<lparr>channelActivities := entries\<rparr>)"

definition getChannelActivity :: "jsstring \<Rightarrow> ActivityTracker \<Rightarrow> ChannelActivity option" where
  "getChannelActivity cid tr = map_of (channelActivities tr) cid"

section \<open>Notions used in the statements\<close>

text \<open>The last \<open>n\<close> elements of a list, in their order.\<close>

definition lastN :: "nat \<Rightarrow> 'a list \<Rightarrow> 'a list" where
  "lastN n xs = drop (length xs - n) xs"

text \<open>The guard of \<open>addPendingMessage\<close>: no text but white space, and no attachment.\<close>

definition isEmptyMessage :: "Message \<Rightarrow> bool" where
  "isEmptyMessage message \<longleftrightarrow>
     trim (content message) = [] \<and> length (attachments message) = 0"

text \<open>
  The activity record of a channel as the classification finds it: the entry of the
  table, or a fresh record when the channel has none yet.
\<close>

definition channelState :: "jsstring \<Rightarrow> ActivityTracker \<Rightarrow> ChannelActivity" where
  "channelState cid tr = fst (getOrCreateChannelActivity cid tr)"

text \<open>Whether the rate limiter admits the send of a flush that starts in \<open>tr\<close>.\<close>

definition flushAdmitted :: "IO \<Rightarrow> ActivityTracker \<Rightarrow> bool" where
  "flushAdmitted io tr = fst (canSendMessage (now_canSendMessage io) (rateLimiter tr))"

text \<open>
  The test of the active period in plain arithmetic: a mention or an own message was
  stamped (a stamp of 0 or less counts as never) less than \<open>timeout\<close> before \<open>now\<close>.
\<close>

definition withinInteractionTimeout :: "int \<Rightarrow> int \<Rightarrow> ChannelActivity \<Rightarrow> bool" where
  "withinInteractionTimeout now timeout a \<longleftrightarrow>
     (0 < lastGorpMention a \<and> now - lastGorpMention a < timeout) \<or>
     (0 < lastGorpMessage a \<and> now - lastGorpMessage a < timeout)"

text \<open>The part of an activity record that the classification decides.\<close>

definition classificationView :: "ChannelActivity \<Rightarrow> int \<times> int \<times> int \<times> bool" where
  "classificationView a = (lastGorpMention a, lastGorpMessage a, lastActivity a, isActive a)"

text \<open>
  The three conditions under which the scheduler handles a channel at a tick: the
  queue is not empty, the channel is not active, and its last activity is at most
  \<open>interval\<close> before \<open>now\<close>.
\<close>

definition eligibleForScheduledFlush :: "int \<Rightarrow> int \<Rightarrow> ChannelActivity \<Rightarrow> bool" where
  "eligibleForScheduledFlush now interval a \<longleftrightarrow>
     pendingMessages a \<noteq> [] \<and> \<not> isActive a \<and> now - lastActivity a \<le> interval"

text \<open>
  The channel whose scheduled flush a console line reports: the flush was denied by
  the rate limiter, was sent, or failed. The channels whose flush a tick attempted are
  those of the lines it added to the console.
\<close>

fun scheduledFlushChannel :: "log_event \<Rightarrow> jsstring option" where
  "scheduledFlushChannel (ScheduledRateLimitExceeded c minutes) = Some c"
| "scheduledFlushChannel (ScheduledBatchSent c n k) = Some c"
| "scheduledFlushChannel (ScheduledBatchFailed c message) = Some c"
| "scheduledFlushChannel ev = None"

definition attemptedChannels :: "ActivityTracker \<Rightarrow> ActivityTracker \<Rightarrow> jsstring list" where
  "attemptedChannels tr tr' =
     List.map_filter scheduledFlushChannel (drop (length (console tr)) (console tr'))"

text \<open>The digest that the scheduler sends for a channel, with its images.\<close>

definition scheduledDigest :: "Client \<Rightarrow> IO \<Rightarrow> ChannelActivity \<Rightarrow> jsstring \<times> ImageData list" where
  "scheduledDigest cl io a = (batchSummaryText cl (now_formatTimeRange io) a, pendingImages a)"

section \<open>Example data\<close>

text \<open>
  A client logged in as user 42, an outside world in which every download and every
  request succeeds, one in which every request fails, a message with its author, its
  channel and its text, a tracker with the default timing (5 and 30 minutes) and a
  cap of 3, an activity record with a given queue, and a pending entry.
\<close>

definition example_client :: Client where
  "example_client =
     \<lparr>user_id = Some (utf16 ''42''),
      cached_channel_name = (\<lambda>c. if c = (utf16 ''c1'') then Some (utf16 ''general'') else None)\<rparr>"

definition example_io :: IO where
  "example_io =
     \<lparr>fetch = (\<lambda>a. Inr (utf16 ''QUJD'')),
      agents_messages_create =
        (\<lambda>q imgs. Inr [LettaMessage (utf16 ''assistant_message'') (Text (utf16 ''ok''))]),
      now_formatTimeRange = 1000100,
      now_canSendMessage = 1000200,
      now_getStatus = 1000300,
      now_getTimeUntilReset_status = 1000400,
      now_getTimeUntilReset = 1000500,
      now_recordMessageSent = 1000600\<rparr>"

definition failing_io :: IO where
  "failing_io = example_io\<lparr>agents_messages_create := (\<lambda>q imgs. Inl (utf16 ''timeout''))\<rparr>"

definition example_message :: "jsstring \<Rightarrow> jsstring \<Rightarrow> jsstring \<Rightarrow> Message" where
  "example_message author cid c =
     \<lparr>msg_id = (utf16 ''m1''), author_id = author, author_username = (utf16 ''ann''), content = c,
      channel_id = cid, channel_name = Some (utf16 ''general''), attachments = []\<rparr>"

definition example_messages :: "Message list" where
  "example_messages =
     map (\<lambda>n. (example_message (utf16 ''7'') (utf16 ''c1'') (utf16 ''hello''))\<lparr>msg_id := show_nat n\<rparr>) [1..<56]"

definition example_tracker :: ActivityTracker where
  "example_tracker = new_ActivityTracker 5 30 (new_RateLimiter 3)"

definition example_activity :: "jsstring \<Rightarrow> PendingMessage list \<Rightarrow> ChannelActivity" where
  "example_activity cid queue =
     \<lparr>channelId = cid, lastGorpMention = 0, lastGorpMessage = 0, lastActivity = 1000000,
      pendingMessages = queue, isActive = False\<rparr>"

definition example_pending :: PendingMessage where
  "example_pending =
     \<lparr>pm_text = (utf16 ''[messageId: m0] bob in #general: hello''), pm_images = None\<rparr>"

text \<open>
  A tracker with one message pending in channel c1, the same tracker with its hourly
  quota of 3 used up, and a tracker in whose channel c1 a mention was stamped at
  1000000.
\<close>

definition backlog_tracker :: ActivityTracker where
  "backlog_tracker =
     example_tracker
       \<lparr>channelActivities :=
          [((utf16 ''c1''), example_activity (utf16 ''c1'')
                     [example_pending])]\<rparr>"

definition exhausted_tracker :: ActivityTracker where
  "exhausted_tracker =
     backlog_tracker
       \<lparr>rateLimiter :=
          \<lparr>messageTimestamps = [999000, 999100, 999200], maxMessagesPerHour = 3\<rparr>\<rparr>"

definition mentioned_tracker :: ActivityTracker where
  "mentioned_tracker =
     example_tracker
       \<lparr>channelActivities :=
          [((utf16 ''c1''), (example_activity (utf16 ''c1'') [])\<lparr>lastGorpMention := 1000000, isActive := True\<rparr>)]\<rparr>"

text \<open>
  A tracker with a batch interval of one minute and a table of four channels: c1 has
  a message pending and is dormant, c2 has one pending but is active, c3 has one
  pending but its last activity is old, c4 has nothing pending. And a table of two
  dormant channels with a message pending each.
\<close>

definition four_channel_tracker :: ActivityTracker where
  "four_channel_tracker =
     (new_ActivityTracker 5 1 (new_RateLimiter 3))
       \<lparr>channelActivities :=
          [((utf16 ''c1''), example_activity (utf16 ''c1'') [example_pending]),
           ((utf16 ''c2''), (example_activity (utf16 ''c2'') [example_pending])\<lparr>isActive := True\<rparr>),
           ((utf16 ''c3''), (example_activity (utf16 ''c3'') [example_pending])\<lparr>lastActivity := 1000\<rparr>),
           ((utf16 ''c4''), example_activity (utf16 ''c4'') [])]\<rparr>"

definition two_channel_tracker :: ActivityTracker where
  "two_channel_tracker =
     example_tracker
       \<lparr>channelActivities :=
          [((utf16 ''c1''), example_activity (utf16 ''c1'') [example_pending]),
           ((utf16 ''c2''), example_activity (utf16 ''c2'') [example_pending])]\<rparr>"

section \<open>The rate limiter\<close>

lemma Math_ceil_div_ceiling:
  "Math_ceil_div x d = \<lceil>real_of_int x / real_of_int d\<rceil>"
proof -
  have "- (real_of_int x / real_of_int d) = real_of_int (- x) / real_of_int d"
    by simp
  then have "\<lfloor>- (real_of_int x / real_of_int d)\<rfloor> = (- x) div d"
    by (simp only: floor_divide_of_int_eq)
  then show ?thesis
    by (simp add: Math_ceil_div_def ceiling_def)
qed

lemma first_of_sorted_is_Min:
  fixes xs :: "int list"
  assumes "sorted xs" and "xs \<noteq> []"
  shows "xs ! 0 = Min (set xs)"
proof -
  from assms obtain y ys where xs: "xs = y # ys" by (cases xs) auto
  with assms have "\<forall>z\<in>set xs. y \<le> z" by auto
  then have "Min (set xs) = y"
    using xs by (intro Min_eqI) auto
  then show ?thesis using xs by simp
qed

text \<open>
  The time stamps stay in the order of the clock: \<open>recordMessageSent\<close> appends a
  reading that is not earlier than the ones recorded, and the purge keeps the order.
\<close>

lemma recordMessageSent_sorted:
  "sorted (messageTimestamps rl) \<Longrightarrow> \<forall>t\<in>set (messageTimestamps rl). t \<le> now \<Longrightarrow>
   sorted (messageTimestamps (recordMessageSent now rl))"
  by (simp add: recordMessageSent_def sorted_append)

lemma canSendMessage_sorted:
  "sorted (messageTimestamps rl) \<Longrightarrow> sorted (messageTimestamps (snd (canSendMessage now rl)))"
  by (simp add: canSendMessage_def Let_def sorted_wrt_filter)

text \<open>
  C2. With a cap of 3 and no time stamp yet, three cycles of \<open>canSendMessage\<close> then
  \<open>recordMessageSent\<close> are each admitted; a fourth \<open>canSendMessage\<close> within the hour of
  the first send is denied and \<open>getStatus\<close> then reports 0 remaining messages; once
  the first time stamp is 60 minutes old (and the second is not yet), \<open>canSendMessage\<close>
  admits again and \<open>remainingMessages\<close> is larger by exactly 1. The readings of the
  clock are \<open>a1 \<le> b1 \<le> \<dots>\<close> in the order of the calls.
\<close>

theorem rate_limiter_cap_three:
  fixes a1 b1 a2 b2 a3 b3 a4 s4 a5 s5 :: int
  assumes clock: "a1 \<le> b1" "b1 \<le> a2" "a2 \<le> b2" "b2 \<le> a3" "a3 \<le> b3" "b3 \<le> a4"
      "a4 \<le> s4" "s4 \<le> a5" "a5 \<le> s5"
    and same_hour: "s4 - b1 < windowMs"
    and first_aged: "windowMs \<le> a5 - b1"
    and second_not_aged: "s5 - b2 < windowMs"
  shows "(let rl = new_RateLimiter 3;
              (ok1, rl) = canSendMessage a1 rl; rl = recordMessageSent b1 rl;
              (ok2, rl) = canSendMessage a2 rl; rl = recordMessageSent b2 rl;
              (ok3, rl) = canSendMessage a3 rl; rl = recordMessageSent b3 rl;
              (ok4, rl) = canSendMessage a4 rl;
              (status4, rl) = getStatus s4 rl;
              (ok5, rl) = canSendMessage a5 rl;
              (status5, rl) = getStatus s5 rl
          in ok1 \<and> ok2 \<and> ok3 \<and> \<not> ok4 \<and> ok5 \<and>
             remainingMessages status4 = 0 \<and>
             remainingMessages status5 = remainingMessages status4 + 1)"
  using assms
  by (simp add: new_RateLimiter_def canSendMessage_def recordMessageSent_def getStatus_def
      Let_def)

theorem rate_limiter_cap_three_witness:
  "(0::int) \<le> 1 \<and> (1::int) \<le> 2 \<and> (2::int) \<le> 3 \<and> (3::int) \<le> 4 \<and> (4::int) \<le> 5 \<and>
   (5::int) \<le> 6 \<and> (6::int) \<le> 7 \<and> (7::int) \<le> 3600001 \<and> (3600001::int) \<le> 3600002 \<and>
   7 - 1 < windowMs \<and> windowMs \<le> 3600001 - 1 \<and> 3600002 - 3 < windowMs \<and>
   (let rl = new_RateLimiter 3;
        (ok1, rl) = canSendMessage 0 rl; rl = recordMessageSent 1 rl;
        (ok2, rl) = canSendMessage 2 rl; rl = recordMessageSent 3 rl;
        (ok3, rl) = canSendMessage 4 rl; rl = recordMessageSent 5 rl;
        (ok4, rl) = canSendMessage 6 rl;
        (status4, rl) = getStatus 7 rl;
        (ok5, rl) = canSendMessage 3600001 rl;
        (status5, rl) = getStatus 3600002 rl
    in ok1 \<and> ok2 \<and> ok3 \<and> \<not> ok4 \<and> ok5 \<and>
       remainingMessages status4 = 0 \<and>
       remainingMessages status5 = remainingMessages status4 + 1)"
proof -
  have w: "7 - 1 < windowMs" "windowMs \<le> 3600001 - 1" "3600002 - 3 < windowMs"
    by (simp_all add: windowMs_def)
  show ?thesis
    using w rate_limiter_cap_three [of 0 1 2 3 4 5 6 7 3600001 3600002]
    by simp
qed

text \<open>
  C8. \<open>getStatus\<close> reports \<open>remainingMessages = max 0 (cap - count)\<close>, where the count is
  that of the time stamps less than an hour old, and \<open>resetTime\<close> is the oldest time
  stamp it retains plus the window, or the reading of the clock when it retains none;
  \<open>getTimeUntilReset\<close> is the time from its second reading of the clock to that
  \<open>resetTime\<close>, in minutes, rounded up, and at least 0. The time stamps are in the
  order in which they were recorded.
\<close>

theorem getStatus_getTimeUntilReset:
  fixes now now2 :: int
  assumes chronological: "sorted (messageTimestamps rl)"
  shows "(let retained = filter (\<lambda>timestamp. now - timestamp < windowMs) (messageTimestamps rl);
              status = fst (getStatus now rl)
          in remainingMessages status = max 0 (maxMessagesPerHour rl - int (length retained)) \<and>
             resetTime status = (if retained = [] then now else Min (set retained) + windowMs) \<and>
             fst (getTimeUntilReset now now2 rl) =
               max 0 \<lceil>real_of_int (resetTime status - now2) / real_of_int (1000 * 60)\<rceil>)"
proof -
  let ?retained = "filter (\<lambda>timestamp. now - timestamp < windowMs) (messageTimestamps rl)"
  have "sorted ?retained"
    using chronological by (rule sorted_wrt_filter)
  then have "?retained \<noteq> [] \<Longrightarrow> ?retained ! 0 = Min (set ?retained)"
    by (rule first_of_sorted_is_Min)
  then show ?thesis
    by (simp add: getStatus_def getTimeUntilReset_def Let_def Math_ceil_div_ceiling
          del: of_int_mult of_int_numeral)
qed

theorem getStatus_getTimeUntilReset_witness:
  "sorted [1000, 2000 :: int] \<and>
   (let rl = \<lparr>messageTimestamps = [1000, 2000], maxMessagesPerHour = 3\<rparr>;
        retained = filter (\<lambda>timestamp. 3601500 - timestamp < windowMs) (messageTimestamps rl);
        status = fst (getStatus 3601500 rl)
    in retained = [2000] \<and> remainingMessages status = 2 \<and> resetTime status = 3602000 \<and>
       fst (getTimeUntilReset 3601500 3601600 rl) = 1)"
proof -
  have s: "sorted (messageTimestamps \<lparr>messageTimestamps = [1000, 2000], maxMessagesPerHour = 3\<rparr>)"
    by simp
  show ?thesis
    using getStatus_getTimeUntilReset
      [OF s, of 3601500 3601600]
    by (simp add: windowMs_def Let_def ceiling_eq_iff)
qed

section \<open>The pending queue\<close>

lemma slice_neg_lastN: "0 < n \<Longrightarrow> slice (- int n) xs = lastN n xs"
  by (auto simp: slice_def lastN_def Let_def max_def nat_diff_distrib')

lemma lastN_short: "length xs \<le> n \<Longrightarrow> lastN n xs = xs"
  by (simp add: lastN_def)

lemma length_lastN: "length (lastN n xs) = min n (length xs)"
  by (simp add: lastN_def)

lemma lastN_lastN_append: "lastN n (lastN n xs @ ys) = lastN n (xs @ ys)"
proof (cases "length xs \<le> n")
  case True
  then show ?thesis by (simp add: lastN_short)
next
  case False
  then show ?thesis by (simp add: lastN_def add.commute)
qed

lemma addPendingMessage_queue:
  "\<not> isEmptyMessage message \<Longrightarrow>
   pendingMessages (fst (addPendingMessage io activity message tr)) =
     lastN 50 (pendingMessages activity @ [pendingMessageOf io message])"
  using slice_neg_lastN [of 50]
  by (auto simp add: addPendingMessage_def isEmptyMessage_def Let_def lastN_short)

lemma addPendingMessage_skip:
  "isEmptyMessage message \<Longrightarrow> addPendingMessage io activity message tr = (activity, tr)"
  by (simp add: addPendingMessage_def isEmptyMessage_def)

lemma addPendingMessage_fields:
  "addPendingMessage io a message tr = (a3, tr3) \<Longrightarrow>
     lastGorpMention a3 = lastGorpMention a \<and> lastGorpMessage a3 = lastGorpMessage a \<and>
     lastActivity a3 = lastActivity a \<and> isActive a3 = isActive a \<and> channelId a3 = channelId a"
  by (auto simp: addPendingMessage_def Let_def split: if_splits)

lemma enqueue_all_queue:
  "\<forall>message\<in>set ms. \<not> isEmptyMessage message \<Longrightarrow> length (pendingMessages activity) \<le> 50 \<Longrightarrow>
   pendingMessages (fst (fold (\<lambda>m (a, t). addPendingMessage io a m t) ms (activity, tr))) =
     lastN 50 (pendingMessages activity @ map (pendingMessageOf io) ms)"
proof (induction ms arbitrary: activity tr)
  case Nil
  then show ?case by (simp add: lastN_short)
next
  case (Cons m ms)
  obtain a1 tr1 where step: "addPendingMessage io activity m tr = (a1, tr1)"
    by (cases "addPendingMessage io activity m tr")
  have q1: "pendingMessages a1 = lastN 50 (pendingMessages activity @ [pendingMessageOf io m])"
    using addPendingMessage_queue [of m io activity tr] Cons.prems step by simp
  then have "length (pendingMessages a1) \<le> 50"
    by (simp add: length_lastN)
  then show ?case
    using Cons.IH [of a1 tr1] Cons.prems(1) step
      lastN_lastN_append [of 50 "pendingMessages activity @ [pendingMessageOf io m]"
        "map (pendingMessageOf io) ms"]
    by (simp add: q1)
qed

text \<open>
  C5. After \<open>addPendingMessage\<close> has enqueued a message (one that is not empty) the
  queue holds at most 50 entries, whatever it held before; a message that is empty
  leaves a queue of at most 50 entries as it is. Enqueueing 55 messages that are not
  empty into an empty queue leaves exactly 50 entries: those of the last 50 messages,
  in the order of insertion.
\<close>

theorem pending_queue_bound:
  fixes activity0 :: ChannelActivity
  assumes nonempty: "\<forall>message\<in>set ms. \<not> isEmptyMessage message"
  shows "(\<forall>message activity tr. \<not> isEmptyMessage message \<longrightarrow>
            length (pendingMessages (fst (addPendingMessage io activity message tr))) \<le> 50) \<and>
         (\<forall>message activity tr. length (pendingMessages activity) \<le> 50 \<longrightarrow>
            length (pendingMessages (fst (addPendingMessage io activity message tr))) \<le> 50) \<and>
         (pendingMessages activity0 = [] \<and> length ms = 55 \<longrightarrow>
            (let queue = pendingMessages (fst (fold (\<lambda>message (activity, tr).
                            addPendingMessage io activity message tr) ms (activity0, tr0)))
             in length queue = 50 \<and> queue = map (pendingMessageOf io) (drop 5 ms)))"
    (is "?each \<and> ?bounded \<and> (?start \<longrightarrow> ?last50)")
proof (intro conjI allI impI)
  fix message and activity :: ChannelActivity and tr
  assume "\<not> isEmptyMessage message"
  then show "length (pendingMessages (fst (addPendingMessage io activity message tr))) \<le> 50"
    by (simp add: addPendingMessage_queue length_lastN)
next
  fix message and activity :: ChannelActivity and tr
  assume "length (pendingMessages activity) \<le> 50"
  then show "length (pendingMessages (fst (addPendingMessage io activity message tr))) \<le> 50"
    by (cases "isEmptyMessage message")
       (simp_all add: addPendingMessage_queue addPendingMessage_skip length_lastN)
next
  assume a: ?start
  then have "pendingMessages (fst (fold (\<lambda>m (a, t). addPendingMessage io a m t) ms
                (activity0, tr0))) = lastN 50 (map (pendingMessageOf io) ms)"
    using enqueue_all_queue [OF nonempty, of activity0 io tr0] by simp
  also have "\<dots> = map (pendingMessageOf io) (drop 5 ms)"
    using a by (simp add: lastN_def drop_map)
  finally show ?last50
    using a by (simp add: Let_def)
qed

theorem pending_queue_bound_witness:
  "list_all (\<lambda>message. \<not> isEmptyMessage message) example_messages \<and>
   \<not> isEmptyMessage (example_message (utf16 ''7'') (utf16 ''c1'') (utf16 ''hello'')) \<and>
   length (pendingMessages (fst (addPendingMessage example_io (example_activity (utf16 ''c1'') [])
      (example_message (utf16 ''7'') (utf16 ''c1'') (utf16 ''hello'')) example_tracker))) \<le> 50 \<and>
   length (pendingMessages (example_activity (utf16 ''c1'') [])) \<le> 50 \<and>
   length (pendingMessages (fst (addPendingMessage example_io (example_activity (utf16 ''c1'') [])
      (example_message (utf16 ''7'') (utf16 ''c1'') []) example_tracker))) \<le> 50 \<and>
   pendingMessages (example_activity (utf16 ''c1'') []) = [] \<and> length example_messages = 55 \<and>
   (let queue = pendingMessages (fst (fold (\<lambda>message (activity, tr).
                   addPendingMessage example_io activity message tr) example_messages
                   (example_activity (utf16 ''c1'') [], example_tracker)))
    in length queue = 50 \<and> queue = map (pendingMessageOf example_io) (drop 5 example_messages))"
proof -
  have ne: "\<forall>message\<in>set example_messages. \<not> isEmptyMessage message"
    by (simp add: example_messages_def example_message_def isEmptyMessage_def trim_def
        isWhiteSpace_def utf16_def)
  have one: "\<not> isEmptyMessage (example_message (utf16 ''7'') (utf16 ''c1'') (utf16 ''hello''))"
    by (simp add: example_message_def isEmptyMessage_def trim_def isWhiteSpace_def utf16_def)
  have start: "pendingMessages (example_activity (utf16 ''c1'') []) = [] \<and> length example_messages = 55"
    by (simp add: example_activity_def example_messages_def)
  note bound = pending_queue_bound [OF ne, of example_io "example_activity (utf16 ''c1'') []" example_tracker]
  from bound one have c1: "length (pendingMessages (fst (addPendingMessage example_io
      (example_activity (utf16 ''c1'') []) (example_message (utf16 ''7'') (utf16 ''c1'') (utf16 ''hello'')) example_tracker))) \<le> 50"
    by blast
  from bound start have c2: "length (pendingMessages (fst (addPendingMessage example_io
      (example_activity (utf16 ''c1'') []) (example_message (utf16 ''7'') (utf16 ''c1'') []) example_tracker))) \<le> 50"
    by (metis le0 list.size(3))
  from bound start have c3: "(let queue = pendingMessages (fst (fold (\<lambda>message (activity, tr).
                   addPendingMessage example_io activity message tr) example_messages
                   (example_activity (utf16 ''c1'') [], example_tracker)))
    in length queue = 50 \<and> queue = map (pendingMessageOf example_io) (drop 5 example_messages))"
    by blast
  show ?thesis
    using ne one c1 c2 c3 start by (simp add: list_all_iff)
qed

section \<open>Classification of a message\<close>

lemma getOrCreate_activity:
  "getOrCreateChannelActivity cid tr = (a, tr') \<Longrightarrow>
     a = channelState cid tr \<and> map_of (channelActivities tr') cid = Some a \<and>
     rateLimiter tr' = rateLimiter tr \<and> console tr' = console tr \<and>
     lettaRequests tr' = lettaRequests tr \<and>
     suspendedFlushes tr' = suspendedFlushes tr \<and>
     GORP_INTERACTION_TIMEOUT tr' = GORP_INTERACTION_TIMEOUT tr \<and>
     BATCH_INTERVAL tr' = BATCH_INTERVAL tr"
  by (auto simp: getOrCreateChannelActivity_def channelState_def Let_def map_add_def
      split: option.splits)

lemma getOrCreate_others:
  "getOrCreateChannelActivity cid tr = (a, tr') \<Longrightarrow> c \<noteq> cid \<Longrightarrow>
     getChannelActivity c tr' = getChannelActivity c tr"
  by (auto simp: getOrCreateChannelActivity_def getChannelActivity_def Let_def map_add_def
      split: option.splits)

lemma channelState_known:
  "getChannelActivity cid tr = Some a \<Longrightarrow> channelState cid tr = a"
  by (simp add: channelState_def getOrCreateChannelActivity_def getChannelActivity_def)

lemma channelState_store [simp]:
  "channelState cid (storeChannelActivity cid a tr) = a"
  by (simp add: channelState_def getOrCreateChannelActivity_def storeChannelActivity_def
      update_conv')

lemma getChannelActivity_store:
  "getChannelActivity c (storeChannelActivity cid a tr) =
     (if c = cid then Some a else getChannelActivity c tr)"
  by (simp add: getChannelActivity_def storeChannelActivity_def update_conv')

lemma store_fields [simp]:
  "rateLimiter (storeChannelActivity cid a tr) = rateLimiter tr"
  "console (storeChannelActivity cid a tr) = console tr"
  "lettaRequests (storeChannelActivity cid a tr) = lettaRequests tr"
  "suspendedFlushes (storeChannelActivity cid a tr) = suspendedFlushes tr"
  by (simp_all add: storeChannelActivity_def)

lemma sendBatchUpdate_activity:
  "fst (sendBatchUpdate cl io activity m tr) =
     (if flushAdmitted io tr \<and>
         \<not> isl (processQuery io (fst (mentionDigest cl io activity m))
                  (snd (mentionDigest cl io activity m)))
      then activity\<lparr>pendingMessages := []\<rparr> else activity)"
  by (auto simp: sendBatchUpdate_def flushAdmitted_def Let_def split: prod.splits sum.splits)

lemma sendBatchUpdate_frame:
  "channelActivities (snd (sendBatchUpdate cl io activity m tr)) = channelActivities tr \<and>
   GORP_INTERACTION_TIMEOUT (snd (sendBatchUpdate cl io activity m tr)) =
     GORP_INTERACTION_TIMEOUT tr \<and>
   BATCH_INTERVAL (snd (sendBatchUpdate cl io activity m tr)) = BATCH_INTERVAL tr"
  by (auto simp: sendBatchUpdate_def Let_def split: prod.splits sum.splits)

lemma sendBatchUpdate_denied:
  "\<not> flushAdmitted io tr \<Longrightarrow>
     lettaRequests (snd (sendBatchUpdate cl io activity m tr)) = lettaRequests tr"
  by (auto simp: sendBatchUpdate_def flushAdmitted_def Let_def split: prod.splits sum.splits)

lemma sendBatchUpdate_requests:
  "lettaRequests (snd (sendBatchUpdate cl io activity m tr)) =
     lettaRequests tr @ (if flushAdmitted io tr then [mentionDigest cl io activity m] else [])"
  by (auto simp: sendBatchUpdate_def flushAdmitted_def Let_def split: prod.splits sum.splits)

lemma sendBatchUpdate_start_frame:
  "channelActivities (sendBatchUpdate_start cl io cid activity m tr) = channelActivities tr"
  "GORP_INTERACTION_TIMEOUT (sendBatchUpdate_start cl io cid activity m tr) =
     GORP_INTERACTION_TIMEOUT tr"
  "BATCH_INTERVAL (sendBatchUpdate_start cl io cid activity m tr) = BATCH_INTERVAL tr"
  by (auto simp: sendBatchUpdate_start_def sendBatchUpdate_check_def Let_def split: prod.splits)

lemma sendBatchUpdate_start_denied:
  "\<not> flushAdmitted io tr \<Longrightarrow>
     lettaRequests (sendBatchUpdate_start cl io cid activity m tr) = lettaRequests tr"
  by (auto simp: sendBatchUpdate_start_def sendBatchUpdate_check_def flushAdmitted_def Let_def
      split: prod.splits)

lemma addPendingMessage_frame:
  "addPendingMessage io a message tr = (a3, tr3) \<Longrightarrow>
     channelActivities tr3 = channelActivities tr \<and> rateLimiter tr3 = rateLimiter tr \<and>
     lettaRequests tr3 = lettaRequests tr \<and> suspendedFlushes tr3 = suspendedFlushes tr"
  by (auto simp: addPendingMessage_def Let_def split: if_splits)

lemma mention_branch:
  assumes "isGorpMentioned cl message"
    and "getOrCreateChannelActivity (channel_id message) tr = (a, tr1)"
    and "tr2 = (if length (pendingMessages a) > 0
                then sendBatchUpdate_start cl io (channel_id message) (a\<lparr>lastActivity := now\<rparr>)
                       message tr1
                else tr1)"
  shows "shouldForwardImmediately cl io now message tr =
           (True, storeChannelActivity (channel_id message)
                    (a\<lparr>lastActivity := now, lastGorpMention := now, isActive := True\<rparr>) tr2)"
  using assms by (simp add: shouldForwardImmediately_def Let_def)

lemma self_branch:
  assumes "\<not> isGorpMentioned cl message" and "Some (author_id message) = user_id cl"
    and "getOrCreateChannelActivity (channel_id message) tr = (a, tr1)"
  shows "shouldForwardImmediately cl io now message tr =
           (True, storeChannelActivity (channel_id message)
                    (a\<lparr>lastActivity := now, lastGorpMessage := now, isActive := True\<rparr>)
                    (tr1\<lparr>console := console tr1 @ [GorpMessageDetected (channel_id message)]\<rparr>))"
  using assms by (simp add: shouldForwardImmediately_def Let_def)

lemma other_branch:
  assumes "\<not> isGorpMentioned cl message" and "Some (author_id message) \<noteq> user_id cl"
    and "getOrCreateChannelActivity (channel_id message) tr = (a, tr1)"
    and "addPendingMessage io (a\<lparr>lastActivity := now, isActive := False\<rparr>) message
           (tr1\<lparr>console := console tr1 @ [InteractionTimeoutExpired (channel_id message)]\<rparr>)
         = (a3, tr3)"
  shows "shouldForwardImmediately cl io now message tr =
           (if withinInteractionTimeout now (GORP_INTERACTION_TIMEOUT tr) a
            then (True, storeChannelActivity (channel_id message)
                          (a\<lparr>lastActivity := now, isActive := True\<rparr>) tr1)
            else (False, storeChannelActivity (channel_id message) a3 tr3))"
  using assms getOrCreate_activity [OF assms(3)]
  by (auto simp add: shouldForwardImmediately_def Let_def withinInteractionTimeout_def)

text \<open>
  What the classification returns and what it leaves in the table, up to the pending
  queues: neither depends on the rate limiter or on the outside world.
\<close>

lemma classification_result:
  fixes cl io now message tr
  defines "cid \<equiv> channel_id message"
  defines "before \<equiv> channelState cid tr"
  defines "self \<equiv> (Some (author_id message) = user_id cl)"
  defines "recent \<equiv> withinInteractionTimeout now (GORP_INTERACTION_TIMEOUT tr) before"
  shows "fst (shouldForwardImmediately cl io now message tr) =
           (isGorpMentioned cl message \<or> self \<or> recent)"
    and "map_option classificationView
           (getChannelActivity c (snd (shouldForwardImmediately cl io now message tr))) =
         (if c = cid
          then Some (if isGorpMentioned cl message
                     then (now, lastGorpMessage before, now, True)
                     else if self then (lastGorpMention before, now, now, True)
                     else (lastGorpMention before, lastGorpMessage before, now, recent))
          else map_option classificationView (getChannelActivity c tr))"
proof -
  obtain a tr1 where g: "getOrCreateChannelActivity (channel_id message) tr = (a, tr1)"
    by (cases "getOrCreateChannelActivity (channel_id message) tr")
  note g' = getOrCreate_activity [OF g]
  have others: "c \<noteq> cid \<Longrightarrow> getChannelActivity c tr1 = getChannelActivity c tr"
    using getOrCreate_others [OF g] by (simp add: cid_def)
  have a: "a = before" using g' by (simp add: before_def cid_def)
  let ?r = "shouldForwardImmediately cl io now message tr"
  have "fst ?r = (isGorpMentioned cl message \<or> self \<or> recent) \<and>
        map_option classificationView (getChannelActivity c (snd ?r)) =
         (if c = cid
          then Some (if isGorpMentioned cl message
                     then (now, lastGorpMessage before, now, True)
                     else if self then (lastGorpMention before, now, now, True)
                     else (lastGorpMention before, lastGorpMessage before, now, recent))
          else map_option classificationView (getChannelActivity c tr))"
  proof (cases "isGorpMentioned cl message")
    case True
    define tr2 where "tr2 = (if length (pendingMessages a) > 0
                then sendBatchUpdate_start cl io (channel_id message) (a\<lparr>lastActivity := now\<rparr>)
                       message tr1
                else tr1)"
    have "channelActivities tr2 = channelActivities tr1"
      by (simp add: tr2_def sendBatchUpdate_start_frame)
    then have "getChannelActivity c tr2 = getChannelActivity c tr1"
      by (simp add: getChannelActivity_def)
    then show ?thesis
      using mention_branch [OF True g tr2_def] True a others
      by (simp add: getChannelActivity_store classificationView_def cid_def)
  next
    case False
    show ?thesis
    proof (cases self)
      case True
      have "getChannelActivity c
              (tr1\<lparr>console := console tr1 @ [GorpMessageDetected (channel_id message)]\<rparr>)
            = getChannelActivity c tr1"
        by (simp add: getChannelActivity_def)
      then show ?thesis
        using self_branch [OF False True [unfolded self_def] g] False True a others
        by (simp add: getChannelActivity_store classificationView_def cid_def)
    next
      case notself: False
      obtain a3 tr3 where add:
        "addPendingMessage io (a\<lparr>lastActivity := now, isActive := False\<rparr>) message
           (tr1\<lparr>console := console tr1 @ [InteractionTimeoutExpired (channel_id message)]\<rparr>)
         = (a3, tr3)"
        by (cases "addPendingMessage io (a\<lparr>lastActivity := now, isActive := False\<rparr>) message
           (tr1\<lparr>console := console tr1 @ [InteractionTimeoutExpired (channel_id message)]\<rparr>)")
      have "getChannelActivity c tr3 = getChannelActivity c tr1"
        using addPendingMessage_frame [OF add] by (simp add: getChannelActivity_def)
      then show ?thesis
        using other_branch [OF False notself [unfolded self_def] g add] False notself a others
          addPendingMessage_fields [OF add]
        by (simp add: getChannelActivity_store classificationView_def cid_def recent_def)
    qed
  qed
  then show "fst ?r = (isGorpMentioned cl message \<or> self \<or> recent)"
    and "map_option classificationView (getChannelActivity c (snd ?r)) =
         (if c = cid
          then Some (if isGorpMentioned cl message
                     then (now, lastGorpMessage before, now, True)
                     else if self then (lastGorpMention before, now, now, True)
                     else (lastGorpMention before, lastGorpMessage before, now, recent))
          else map_option classificationView (getChannelActivity c tr))"
    by simp_all
qed

lemma classification_after:
  fixes cl io now message tr
  defines "cid \<equiv> channel_id message"
  defines "before \<equiv> channelState cid tr"
  defines "self \<equiv> (Some (author_id message) = user_id cl)"
  defines "recent \<equiv> withinInteractionTimeout now (GORP_INTERACTION_TIMEOUT tr) before"
  shows "classificationView
           (channelState cid (snd (shouldForwardImmediately cl io now message tr))) =
         (if isGorpMentioned cl message then (now, lastGorpMessage before, now, True)
          else if self then (lastGorpMention before, now, now, True)
          else (lastGorpMention before, lastGorpMessage before, now, recent))"
proof -
  let ?tr' = "snd (shouldForwardImmediately cl io now message tr)"
  from classification_result(2)
    [where c = cid and cl = cl and io = io and now = now and message = message and tr = tr]
  obtain A where A: "getChannelActivity cid ?tr' = Some A"
    and v: "classificationView A =
         (if isGorpMentioned cl message then (now, lastGorpMessage before, now, True)
          else if self then (lastGorpMention before, now, now, True)
          else (lastGorpMention before, lastGorpMessage before, now, recent))"
    by (auto simp: cid_def before_def self_def recent_def)
  from A have "channelState cid ?tr' = A" by (rule channelState_known)
  with v show ?thesis by simp
qed

text \<open>
  A call that is no mention starts no flush. A call that is one answers true and, when
  it returns, has written the two stamps and the flag to the entry of its channel and
  nothing else: the queue is as the call found it.
\<close>

lemma classification_flushes:
  assumes "\<not> isGorpMentioned cl message"
  shows "suspendedFlushes (snd (shouldForwardImmediately cl io now message tr)) =
           suspendedFlushes tr"
proof -
  obtain a tr1 where g: "getOrCreateChannelActivity (channel_id message) tr = (a, tr1)"
    by (cases "getOrCreateChannelActivity (channel_id message) tr")
  note g' = getOrCreate_activity [OF g]
  show ?thesis
  proof (cases "Some (author_id message) = user_id cl")
    case True
    show ?thesis
      using self_branch [OF assms True g] g' by simp
  next
    case False
    obtain a3 tr3 where add:
      "addPendingMessage io (a\<lparr>lastActivity := now, isActive := False\<rparr>) message
         (tr1\<lparr>console := console tr1 @ [InteractionTimeoutExpired (channel_id message)]\<rparr>)
       = (a3, tr3)"
      by (cases "addPendingMessage io (a\<lparr>lastActivity := now, isActive := False\<rparr>) message
         (tr1\<lparr>console := console tr1 @ [InteractionTimeoutExpired (channel_id message)]\<rparr>)")
    show ?thesis
      using other_branch [OF assms False g add] g' addPendingMessage_frame [OF add]
      by simp
  qed
qed

lemma mention_at_return:
  assumes "isGorpMentioned cl message"
  shows "fst (shouldForwardImmediately cl io now message tr)"
    and "channelState (channel_id message) (snd (shouldForwardImmediately cl io now message tr)) =
           (channelState (channel_id message) tr)
             \<lparr>lastActivity := now, lastGorpMention := now, isActive := True\<rparr>"
proof -
  obtain a tr1 where g: "getOrCreateChannelActivity (channel_id message) tr = (a, tr1)"
    by (cases "getOrCreateChannelActivity (channel_id message) tr")
  note g' = getOrCreate_activity [OF g]
  note r = mention_branch [OF assms g refl, where io = io and now = now]
  show "fst (shouldForwardImmediately cl io now message tr)"
    by (simp only: r fst_conv)
  show "channelState (channel_id message) (snd (shouldForwardImmediately cl io now message tr)) =
           (channelState (channel_id message) tr)
             \<lparr>lastActivity := now, lastGorpMention := now, isActive := True\<rparr>"
    using g' by (simp only: r snd_conv channelState_store)
qed

section \<open>Suspended flushes\<close>

lemma settleFlushes_Nil:
  "suspendedFlushes tr = [] \<Longrightarrow> settleFlushes io tr = tr"
  by (simp add: settleFlushes.simps)

lemma settleFlushes_Cons:
  "suspendedFlushes tr = flush # flushes \<Longrightarrow>
     settleFlushes io tr =
       settleFlushes io (sendBatchUpdate_resume io flush (tr\<lparr>suspendedFlushes := flushes\<rparr>))"
  by (subst settleFlushes.simps) simp

text \<open>
  A flush that goes on writes no stamp and no flag, and it keeps the keys of the
  table; when all flushes have settled, none is left.
\<close>

lemma sendBatchUpdate_resume_view:
  "map_option classificationView (getChannelActivity c (sendBatchUpdate_resume io flush tr)) =
     map_option classificationView (getChannelActivity c tr)"
  by (cases flush)
     (auto simp: sendBatchUpdate_resume_def sendBatchUpdate_check_def getChannelActivity_def
        classificationView_def update_conv' Let_def split: prod.splits sum.splits option.splits)

lemma sendBatchUpdate_resume_keys:
  "map fst (channelActivities (sendBatchUpdate_resume io flush tr)) =
     map fst (channelActivities tr)"
proof -
  have "map_of al k = Some v \<Longrightarrow> map fst (AList.update k v' al) = map fst al"
    for al :: "(jsstring \<times> ChannelActivity) list" and k v v'
    by (induction al) auto
  then show ?thesis
    by (cases flush)
       (auto simp: sendBatchUpdate_resume_def sendBatchUpdate_check_def Let_def
          split: prod.splits sum.splits option.splits)
qed

lemma settleFlushes_view:
  "map_option classificationView (getChannelActivity c (settleFlushes io tr)) =
     map_option classificationView (getChannelActivity c tr)"
proof (induction io tr rule: settleFlushes.induct)
  case (1 io tr)
  show ?case
  proof (cases "suspendedFlushes tr")
    case Nil
    then show ?thesis by (simp add: settleFlushes_Nil)
  next
    case (Cons flush flushes)
    have "map_option classificationView (getChannelActivity c (settleFlushes io tr)) =
          map_option classificationView (getChannelActivity c
            (sendBatchUpdate_resume io flush (tr\<lparr>suspendedFlushes := flushes\<rparr>)))"
      using 1 [OF Cons] by (simp only: settleFlushes_Cons [OF Cons])
    also have "\<dots> = map_option classificationView
                      (getChannelActivity c (tr\<lparr>suspendedFlushes := flushes\<rparr>))"
      by (rule sendBatchUpdate_resume_view)
    also have "\<dots> = map_option classificationView (getChannelActivity c tr)"
      by (simp add: getChannelActivity_def)
    finally show ?thesis .
  qed
qed

lemma settleFlushes_keys:
  "map fst (channelActivities (settleFlushes io tr)) = map fst (channelActivities tr)"
proof (induction io tr rule: settleFlushes.induct)
  case (1 io tr)
  show ?case
  proof (cases "suspendedFlushes tr")
    case Nil
    then show ?thesis by (simp add: settleFlushes_Nil)
  next
    case (Cons flush flushes)
    have "map fst (channelActivities (settleFlushes io tr)) =
          map fst (channelActivities
            (sendBatchUpdate_resume io flush (tr\<lparr>suspendedFlushes := flushes\<rparr>)))"
      using 1 [OF Cons] by (simp only: settleFlushes_Cons [OF Cons])
    also have "\<dots> = map fst (channelActivities (tr\<lparr>suspendedFlushes := flushes\<rparr>))"
      by (rule sendBatchUpdate_resume_keys)
    finally show ?thesis by simp
  qed
qed

lemma settleFlushes_done:
  "suspendedFlushes (settleFlushes io tr) = []"
proof (induction io tr rule: settleFlushes.induct)
  case (1 io tr)
  show ?case
  proof (cases "suspendedFlushes tr")
    case Nil
    then show ?thesis by (simp add: settleFlushes_Nil)
  next
    case (Cons flush flushes)
    show ?thesis
      using 1 [OF Cons] by (simp only: settleFlushes_Cons [OF Cons])
  qed
qed

text \<open>
  The flush that a mention starts in a tracker with no flush suspended, once it has
  settled with nothing else in between, has done what \<open>sendBatchUpdate\<close> does as a
  whole: \<open>A\<close> is what the caller has written to the activity object meanwhile.
\<close>

lemma flush_settles:
  assumes idle: "suspendedFlushes tr = []"
  shows "settleFlushes io
           (storeChannelActivity cid A (sendBatchUpdate_start cl io cid activity m tr)) =
         storeChannelActivity cid
           (if flushAdmitted io tr \<and>
               \<not> isl (processQuery io (fst (mentionDigest cl io activity m))
                        (snd (mentionDigest cl io activity m)))
            then A\<lparr>pendingMessages := []\<rparr> else A)
           (snd (sendBatchUpdate cl io activity m tr))"
proof -
  obtain admitted rl where c:
    "canSendMessage (now_canSendMessage io) (rateLimiter tr) = (admitted, rl)"
    by (cases "canSendMessage (now_canSendMessage io) (rateLimiter tr)")
  obtain status rl1 where s: "getStatus (now_getStatus io) rl = (status, rl1)"
    by (cases "getStatus (now_getStatus io) rl")
  obtain minutes rl2 where t:
    "getTimeUntilReset (now_getTimeUntilReset_status io) (now_getTimeUntilReset io) rl1 =
       (minutes, rl2)"
    by (cases "getTimeUntilReset (now_getTimeUntilReset_status io) (now_getTimeUntilReset io) rl1")
  show ?thesis
  proof (cases "attachments m = []")
    case True
    show ?thesis
    proof (cases admitted)
      case False
      then show ?thesis
        using idle c s t True
        by (simp add: sendBatchUpdate_start_def sendBatchUpdate_check_def sendBatchUpdate_def
            mentionDigest_def flushAdmitted_def storeChannelActivity_def settleFlushes_Nil
            Let_def)
    next
      case adm: True
      show ?thesis
      proof (cases "processQuery io (mentionSummary cl io activity m) (pendingImages activity)")
        case (Inl error)
        then show ?thesis
          using idle c True adm
          by (simp add: sendBatchUpdate_start_def sendBatchUpdate_check_def sendBatchUpdate_def
              mentionDigest_def flushAdmitted_def storeChannelActivity_def settleFlushes_Nil
              settleFlushes_Cons sendBatchUpdate_resume_def Let_def)
      next
        case (Inr response)
        then show ?thesis
          using idle c True adm
          by (simp add: sendBatchUpdate_start_def sendBatchUpdate_check_def sendBatchUpdate_def
              mentionDigest_def flushAdmitted_def storeChannelActivity_def settleFlushes_Nil
              settleFlushes_Cons sendBatchUpdate_resume_def update_conv' Let_def)
      qed
    qed
  next
    case False
    show ?thesis
    proof (cases admitted)
      case denied: False
      then show ?thesis
        using idle c s t False
        by (simp add: sendBatchUpdate_start_def sendBatchUpdate_check_def sendBatchUpdate_def
            mentionDigest_def flushAdmitted_def storeChannelActivity_def settleFlushes_Nil
            settleFlushes_Cons sendBatchUpdate_resume_def Let_def)
    next
      case adm: True
      show ?thesis
      proof (cases "processQuery io (mentionSummary cl io activity m)
                      (pendingImages activity @ processImageAttachments io (attachments m))")
        case (Inl error)
        then show ?thesis
          using idle c False adm
          by (simp add: sendBatchUpdate_start_def sendBatchUpdate_check_def sendBatchUpdate_def
              mentionDigest_def flushAdmitted_def storeChannelActivity_def settleFlushes_Nil
              settleFlushes_Cons sendBatchUpdate_resume_def Let_def)
      next
        case (Inr response)
        then show ?thesis
          using idle c False adm
          by (simp add: sendBatchUpdate_start_def sendBatchUpdate_check_def sendBatchUpdate_def
              mentionDigest_def flushAdmitted_def storeChannelActivity_def settleFlushes_Nil
              settleFlushes_Cons sendBatchUpdate_resume_def update_conv' Let_def)
      qed
    qed
  qed
qed

section \<open>Mentions and other messages\<close>

text \<open>
  A mention in a tracker with no flush suspended, after the flush it starts has
  settled: the entry of the channel, and the requests made to the Letta service.
\<close>

lemma mention_settled:
  assumes mention: "isGorpMentioned cl message" and idle: "suspendedFlushes tr = []"
  shows "(let cid = channel_id message;
              before = (channelState cid tr)\<lparr>lastActivity := now\<rparr>;
              digest = mentionDigest cl io before message;
              sent = (pendingMessages before \<noteq> [] \<and> flushAdmitted io tr);
              cleared = (sent \<and> \<not> isl (processQuery io (fst digest) (snd digest)));
              settled = settleFlushes io (snd (shouldForwardImmediately cl io now message tr))
          in channelState cid settled =
               before\<lparr>lastGorpMention := now, isActive := True,
                       pendingMessages := if cleared then [] else pendingMessages before\<rparr> \<and>
             lettaRequests settled = lettaRequests tr @ (if sent then [digest] else []))"
proof -
  let ?cid = "channel_id message"
  obtain a tr1 where g: "getOrCreateChannelActivity ?cid tr = (a, tr1)"
    by (cases "getOrCreateChannelActivity ?cid tr")
  note g' = getOrCreate_activity [OF g]
  have a: "channelState ?cid tr = a"
    using g' by simp
  have idle1: "suspendedFlushes tr1 = []"
    using g' idle by simp
  have adm: "flushAdmitted io tr1 = flushAdmitted io tr"
    using g' by (simp add: flushAdmitted_def)
  have reqs: "lettaRequests tr1 = lettaRequests tr"
    using g' by simp
  let ?A = "a\<lparr>lastActivity := now, lastGorpMention := now, isActive := True\<rparr>"
  note r = mention_branch [OF mention g refl, where io = io and now = now]
  show ?thesis
  proof (cases "pendingMessages a = []")
    case True
    have "settleFlushes io (storeChannelActivity ?cid ?A tr1) = storeChannelActivity ?cid ?A tr1"
      using idle1 by (intro settleFlushes_Nil) simp
    then show ?thesis
      using True by (simp add: r a reqs Let_def)
  next
    case False
    have "settleFlushes io (snd (shouldForwardImmediately cl io now message tr)) =
          storeChannelActivity ?cid
            (if flushAdmitted io tr \<and>
                \<not> isl (processQuery io
                         (fst (mentionDigest cl io (a\<lparr>lastActivity := now\<rparr>) message))
                         (snd (mentionDigest cl io (a\<lparr>lastActivity := now\<rparr>) message)))
             then ?A\<lparr>pendingMessages := []\<rparr> else ?A)
            (snd (sendBatchUpdate cl io (a\<lparr>lastActivity := now\<rparr>) message tr1))"
      using False flush_settles [OF idle1, where io = io] by (simp add: r adm)
    then show ?thesis
      using False by (simp add: a adm reqs sendBatchUpdate_requests Let_def)
  qed
qed


lemma example_message_fields:
  "channel_id (example_message a c t) = c"
  "author_id (example_message a c t) = a"
  "content (example_message a c t) = t"
  "attachments (example_message a c t) = []"
  by (simp_all add: example_message_def)

lemma example_mention:
  "isGorpMentioned example_client (example_message (utf16 ''7'') (utf16 ''c1'') (utf16 ''hey gorp''))"
  by (simp add: isGorpMentioned_def example_client_def example_message_def toLowerCase_def
      toLowerCaseUnit_def canonicalize_def startsWith_def gorpPattern_test_def isWordChar_def
      utf16_def)

lemma example_no_mention:
  "\<not> isGorpMentioned example_client (example_message a (utf16 ''c1'') (utf16 ''hello''))"
  by (simp add: isGorpMentioned_def example_client_def example_message_def toLowerCase_def
      toLowerCaseUnit_def canonicalize_def startsWith_def gorpPattern_test_def isWordChar_def
      utf16_def)

lemma show_nat_digit: "n < 10 \<Longrightarrow> show_nat n = [0x30 + n]"
  by (simp add: show_nat.simps)

lemma backlog_c1:
  "channelState (utf16 ''c1'') backlog_tracker = example_activity (utf16 ''c1'') [example_pending]"
  by (simp add: channelState_def getOrCreateChannelActivity_def backlog_tracker_def)

lemma backlog_admitted: "flushAdmitted example_io backlog_tracker"
  by (simp add: flushAdmitted_def canSendMessage_def example_io_def backlog_tracker_def
      example_tracker_def new_ActivityTracker_def new_RateLimiter_def)

lemma backlog_idle: "suspendedFlushes backlog_tracker = []"
  by (simp add: backlog_tracker_def example_tracker_def new_ActivityTracker_def)

lemma example_io_succeeds: "\<not> isl (processQuery example_io q imgs)"
  by (simp add: processQuery_def example_io_def)

lemma example_digest:
  "mentionDigest example_client example_io
     ((example_activity (utf16 ''c1'') [example_pending])\<lparr>lastActivity := 1000050\<rparr>)
     (example_message (utf16 ''7'') (utf16 ''c1'') (utf16 ''hey gorp'')) =
   (utf16 ''[Discord Batch Update] 1 messages in #general over the past few seconds:''
      @ utf16 ''\<newline>\<newline>[messageId: m0] bob in #general: hello''
      @ utf16 ''\<newline>\<newline>--- MENTION ---\<newline>[messageId: m1] ann in #general: hey gorp'', [])"
  by (simp add: mentionDigest_def mentionSummary_def batchSummaryText_def formatTimeRange_def
      formatMessageWithImages_def trim_def isWhiteSpace_def example_activity_def
      example_pending_def example_io_def example_client_def example_message_def
      pendingImages_def show_nat_digit Let_def utf16_def)



text \<open>
  C4. With an interaction timeout of 5 minutes, in a channel whose latest mention or
  own message was stamped at \<open>t0\<close>, a message that neither mentions the bot nor is
  the bot's own is forwarded at once exactly when it arrives less than 5 minutes after
  \<open>t0\<close>: at \<open>t0\<close> + 4m59s it is, at \<open>t0\<close> + 5m01s it is not, and at \<open>t0\<close> + 5m it is
  not, the comparison being strict.
\<close>

theorem interaction_timeout_boundary:
  assumes timeout: "GORP_INTERACTION_TIMEOUT tr = 5 * 60 * 1000"
    and other: "\<not> isGorpMentioned cl message" "Some (author_id message) \<noteq> user_id cl"
    and stamped: "getChannelActivity (channel_id message) tr = Some a"
      "max (lastGorpMention a) (lastGorpMessage a) = t0" "0 < t0"
  shows "(fst (shouldForwardImmediately cl io now message tr) \<longleftrightarrow> now - t0 < 5 * 60 * 1000) \<and>
         (now = t0 + 299000 \<longrightarrow> fst (shouldForwardImmediately cl io now message tr)) \<and>
         (now = t0 + 301000 \<longrightarrow> \<not> fst (shouldForwardImmediately cl io now message tr)) \<and>
         (now = t0 + 300000 \<longrightarrow> \<not> fst (shouldForwardImmediately cl io now message tr))"
proof -
  have a: "channelState (channel_id message) tr = a"
    using stamped(1) by (rule channelState_known)
  have "withinInteractionTimeout now (5 * 60 * 1000) a \<longleftrightarrow> now - t0 < 5 * 60 * 1000"
    using stamped(2,3) by (auto simp: withinInteractionTimeout_def max_def split: if_splits)
  then have "fst (shouldForwardImmediately cl io now message tr) \<longleftrightarrow> now - t0 < 5 * 60 * 1000"
    using classification_result(1) [where cl = cl and io = io and now = now and message = message and tr = tr] other timeout a by simp
  then show ?thesis by auto
qed

lemma mentioned_tracker_c1:
  "getChannelActivity (utf16 ''c1'') mentioned_tracker =
     Some ((example_activity (utf16 ''c1'') [])\<lparr>lastGorpMention := 1000000, isActive := True\<rparr>)"
  by (simp add: getChannelActivity_def mentioned_tracker_def)

theorem interaction_timeout_boundary_witness:
  "GORP_INTERACTION_TIMEOUT mentioned_tracker = 5 * 60 * 1000 \<and>
   \<not> isGorpMentioned example_client (example_message (utf16 ''7'') (utf16 ''c1'') (utf16 ''hello'')) \<and>
   Some (author_id (example_message (utf16 ''7'') (utf16 ''c1'') (utf16 ''hello''))) \<noteq> user_id example_client \<and>
   getChannelActivity (channel_id (example_message (utf16 ''7'') (utf16 ''c1'') (utf16 ''hello''))) mentioned_tracker =
     Some ((example_activity (utf16 ''c1'') [])\<lparr>lastGorpMention := 1000000, isActive := True\<rparr>) \<and>
   max (lastGorpMention ((example_activity (utf16 ''c1'') [])\<lparr>lastGorpMention := 1000000, isActive := True\<rparr>))
       (lastGorpMessage ((example_activity (utf16 ''c1'') [])\<lparr>lastGorpMention := 1000000, isActive := True\<rparr>))
     = 1000000 \<and>
   (0::int) < 1000000 \<and>
   fst (shouldForwardImmediately example_client example_io 1299000
          (example_message (utf16 ''7'') (utf16 ''c1'') (utf16 ''hello'')) mentioned_tracker) \<and>
   \<not> fst (shouldForwardImmediately example_client example_io 1301000
            (example_message (utf16 ''7'') (utf16 ''c1'') (utf16 ''hello'')) mentioned_tracker) \<and>
   \<not> fst (shouldForwardImmediately example_client example_io 1300000
            (example_message (utf16 ''7'') (utf16 ''c1'') (utf16 ''hello'')) mentioned_tracker)"
proof -
  let ?m = "example_message (utf16 ''7'') (utf16 ''c1'') (utf16 ''hello'')"
  let ?a = "(example_activity (utf16 ''c1'') [])\<lparr>lastGorpMention := 1000000, isActive := True\<rparr>"
  have h1: "GORP_INTERACTION_TIMEOUT mentioned_tracker = 5 * 60 * 1000"
    by (simp add: mentioned_tracker_def example_tracker_def new_ActivityTracker_def)
  have h2: "\<not> isGorpMentioned example_client ?m"
    by (rule example_no_mention)
  have h3: "Some (author_id ?m) \<noteq> user_id example_client"
    by (simp add: example_message_fields example_client_def utf16_def)
  have h4: "getChannelActivity (channel_id ?m) mentioned_tracker = Some ?a"
    by (simp add: example_message_fields mentioned_tracker_c1)
  have h5: "max (lastGorpMention ?a) (lastGorpMessage ?a) = 1000000"
    by (simp add: example_activity_def)
  have h6: "(0::int) < 1000000" by simp
  note t = interaction_timeout_boundary [OF h1 h2 h3 h4 h5 h6, where io = example_io]
  show ?thesis
    using h1 h2 h3 h4 h5 t [of 1299000] t [of 1301000] t [of 1300000]
    by simp
qed

text \<open>
  C7. The self-message branch is decided by the author of the message: a message that
  does not mention the bot and whose author is the client's user is forwarded at once,
  stamps \<open>lastGorpMessage\<close> with \<open>now\<close> and makes the channel active, whatever its
  content; when the author is anyone else \<open>lastGorpMessage\<close> stays as it was.
\<close>

theorem self_message_by_author:
  assumes no_mention: "\<not> isGorpMentioned cl message"
  shows "(let cid = channel_id message;
              before = channelState cid tr;
              (forward, tr') = shouldForwardImmediately cl io now message tr;
              after = channelState cid tr'
          in (Some (author_id message) = user_id cl \<longrightarrow>
                forward \<and> lastGorpMessage after = now \<and> isActive after) \<and>
             (Some (author_id message) \<noteq> user_id cl \<longrightarrow>
                lastGorpMessage after = lastGorpMessage before))"
  using classification_result(1) [where cl = cl and io = io and now = now and message = message and tr = tr]
    classification_after
      [where cl = cl and io = io and now = now and message = message and tr = tr] no_mention
  by (auto simp: Let_def classificationView_def split: prod.splits)

theorem self_message_by_author_witness:
  "\<not> isGorpMentioned example_client (example_message (utf16 ''42'') (utf16 ''c1'') (utf16 ''hello'')) \<and>
   Some (author_id (example_message (utf16 ''42'') (utf16 ''c1'') (utf16 ''hello''))) = user_id example_client \<and>
   (let (forward, tr') = shouldForwardImmediately example_client example_io 1000050
                           (example_message (utf16 ''42'') (utf16 ''c1'') (utf16 ''hello'')) backlog_tracker;
        after = channelState (utf16 ''c1'') tr'
    in forward \<and> lastGorpMessage after = 1000050 \<and> isActive after) \<and>
   \<not> isGorpMentioned example_client (example_message (utf16 ''7'') (utf16 ''c1'') (utf16 ''hello'')) \<and>
   Some (author_id (example_message (utf16 ''7'') (utf16 ''c1'') (utf16 ''hello''))) \<noteq> user_id example_client \<and>
   (let (forward, tr') = shouldForwardImmediately example_client example_io 1000050
                           (example_message (utf16 ''7'') (utf16 ''c1'') (utf16 ''hello'')) backlog_tracker;
        after = channelState (utf16 ''c1'') tr'
    in lastGorpMessage after = lastGorpMessage (channelState (utf16 ''c1'') backlog_tracker))"
proof -
  have a1: "Some (author_id (example_message (utf16 ''42'') (utf16 ''c1'') (utf16 ''hello''))) = user_id example_client"
    and a2: "Some (author_id (example_message (utf16 ''7'') (utf16 ''c1'') (utf16 ''hello''))) \<noteq> user_id example_client"
    by (simp_all add: example_message_fields example_client_def utf16_def)
  show ?thesis
    using a1 a2 example_no_mention [of "(utf16 ''42'')"] example_no_mention [of "(utf16 ''7'')"]
      self_message_by_author [OF example_no_mention [of "(utf16 ''42'')"],
        where tr = backlog_tracker and now = 1000050 and io = example_io]
      self_message_by_author [OF example_no_mention [of "(utf16 ''7'')"],
        where tr = backlog_tracker and now = 1000050 and io = example_io]
    by (simp add: Let_def example_message_fields split: prod.splits)
qed

text \<open>Text that is only white space mentions nobody.\<close>

lemma trim_empty_whitespace:
  assumes "trim s = []"
  shows "\<forall>c\<in>set s. isWhiteSpace c"
proof -
  from assms have "\<forall>c\<in>set (dropWhile isWhiteSpace s). isWhiteSpace c"
    by (simp add: trim_def dropWhile_eq_Nil_conv)
  then have "dropWhile isWhiteSpace s = []"
    using hd_dropWhile [of isWhiteSpace s] by (cases "dropWhile isWhiteSpace s") auto
  then show ?thesis by (simp add: dropWhile_eq_Nil_conv)
qed

lemma toLowerCaseUnit_whitespace:
  "isWhiteSpace u \<Longrightarrow> toLowerCaseUnit u = [u]"
  by (auto simp: isWhiteSpace_def toLowerCaseUnit_def)

lemma str_includes_subset:
  "str_includes s p \<Longrightarrow> set p \<subseteq> set s"
proof (induction s)
  case Nil
  then show ?case by simp
next
  case (Cons c cs)
  show ?case
  proof (cases "startsWith (c # cs) p")
    case True
    then have "set p = set (take (length p) (c # cs))"
      by (simp only: startsWith_def)
    then show ?thesis
      using set_take_subset [of "length p" "c # cs"] by simp
  next
    case False
    with Cons show ?thesis by auto
  qed
qed

lemma gorpPattern_from_has_g:
  "gorpPattern_from prevWord s \<Longrightarrow> \<exists>u\<in>set s. canonicalize u = 0x47"
proof (induction s arbitrary: prevWord)
  case Nil
  then show ?case by simp
next
  case (Cons c cs)
  from Cons.prems consider
    (here) "map canonicalize (take 4 (c # cs)) = map canonicalize (utf16 ''gorp'')"
    | (later) "gorpPattern_from (isWordChar c) cs"
    by auto
  then show ?case
  proof cases
    case here
    then have "canonicalize c = 0x47"
      by (simp add: utf16_def canonicalize_def)
    then show ?thesis by simp
  next
    case later
    then have "\<exists>u\<in>set cs. canonicalize u = 0x47" by (rule Cons.IH)
    then show ?thesis by simp
  qed
qed

lemma whitespace_no_mention:
  assumes "trim (content message) = []"
  shows "\<not> isGorpMentioned cl message"
proof -
  have ws: "\<forall>u\<in>set (content message). isWhiteSpace u"
    using assms by (rule trim_empty_whitespace)
  have "(\<forall>u\<in>set s. isWhiteSpace u) \<Longrightarrow> concat (map toLowerCaseUnit s) = s" for s
    by (induction s) (simp_all add: toLowerCaseUnit_whitespace)
  with ws have lc: "toLowerCase (content message) = content message"
    by (simp add: toLowerCase_def)
  have "\<not> isWhiteSpace 0x3C"
    by (simp add: isWhiteSpace_def)
  with ws have no_lt: "0x3C \<notin> set (content message)"
    by auto
  have "\<not> isWhiteSpace u" if "canonicalize u = 0x47" for u
  proof -
    from that have "u = 0x47 \<or> u = 0x67"
      by (auto simp: canonicalize_def split: if_splits)
    then show ?thesis by (auto simp: isWhiteSpace_def)
  qed
  with ws have no_g: "\<not> (\<exists>u\<in>set (content message). canonicalize u = 0x47)"
    by auto
  have "\<not> str_includes (content message) (utf16 ''<@'' @ i @ utf16 ''>'')"
    and "\<not> str_includes (content message) (utf16 ''<@!'' @ i @ utf16 ''>'')" for i
    using no_lt str_includes_subset by (fastforce simp: utf16_def)+
  moreover have "\<not> gorpPattern_test (content message)"
    using no_g gorpPattern_from_has_g [of False "content message"]
    by (auto simp: gorpPattern_test_def)
  ultimately show ?thesis
    by (simp add: isGorpMentioned_def lc Let_def)
qed

text \<open>
  C9. A message with no text but white space (any white space that \<^verbatim>\<open>trim\<close> strips,
  the no-break space and the byte order mark among it) and no attachment goes through
  the classification like any other: it is not a mention, it stamps \<open>lastActivity\<close> with
  \<open>now\<close>, it is forwarded at once exactly when its author is the bot or the channel is
  within its interaction timeout, and as the bot's own message it stamps
  \<open>lastGorpMessage\<close>. When it is a batch candidate, the pending queue of its channel
  stays as it was.
\<close>

theorem empty_message_not_enqueued:
  assumes empty: "isEmptyMessage message"
  shows "(let cid = channel_id message;
              before = channelState cid tr;
              (forward, tr') = shouldForwardImmediately cl io now message tr;
              after = channelState cid tr'
          in \<not> isGorpMentioned cl message \<and>
             lastActivity after = now \<and>
             (forward \<longleftrightarrow> Some (author_id message) = user_id cl \<or>
                withinInteractionTimeout now (GORP_INTERACTION_TIMEOUT tr) before) \<and>
             (Some (author_id message) = user_id cl \<longrightarrow>
                lastGorpMessage after = now \<and> isActive after) \<and>
             (\<not> forward \<longrightarrow> pendingMessages after = pendingMessages before))"
proof -
  let ?cid = "channel_id message"
  let ?r = "shouldForwardImmediately cl io now message tr"
  have nm: "\<not> isGorpMentioned cl message"
    using empty by (intro whitespace_no_mention) (simp add: isEmptyMessage_def)
  note fwd = classification_result(1)
    [where cl = cl and io = io and now = now and message = message and tr = tr]
  note view = classification_after
    [where cl = cl and io = io and now = now and message = message and tr = tr]
  have queue: "pendingMessages (channelState ?cid (snd ?r)) = pendingMessages (channelState ?cid tr)"
    if nf: "\<not> fst ?r"
  proof -
    from nf fwd have ns: "Some (author_id message) \<noteq> user_id cl"
      and nr: "\<not> withinInteractionTimeout now (GORP_INTERACTION_TIMEOUT tr) (channelState ?cid tr)"
      by simp_all
    obtain a tr1 where g: "getOrCreateChannelActivity ?cid tr = (a, tr1)"
      by (cases "getOrCreateChannelActivity ?cid tr")
    have a: "a = channelState ?cid tr"
      using getOrCreate_activity [OF g] by simp
    have add: "addPendingMessage io (a\<lparr>lastActivity := now, isActive := False\<rparr>) message
           (tr1\<lparr>console := console tr1 @ [InteractionTimeoutExpired ?cid]\<rparr>)
         = (a\<lparr>lastActivity := now, isActive := False\<rparr>,
            tr1\<lparr>console := console tr1 @ [InteractionTimeoutExpired ?cid]\<rparr>)"
      using empty by (rule addPendingMessage_skip)
    show ?thesis
      using other_branch [OF nm ns g add] nr a by simp
  qed
  obtain forward tr' where r: "?r = (forward, tr')"
    by (cases ?r)
  have f: "forward \<longleftrightarrow> Some (author_id message) = user_id cl \<or>
             withinInteractionTimeout now (GORP_INTERACTION_TIMEOUT tr) (channelState ?cid tr)"
    using fwd nm r by simp
  have v: "classificationView (channelState ?cid tr') =
             (if Some (author_id message) = user_id cl
              then (lastGorpMention (channelState ?cid tr), now, now, True)
              else (lastGorpMention (channelState ?cid tr),
                    lastGorpMessage (channelState ?cid tr), now,
                    withinInteractionTimeout now (GORP_INTERACTION_TIMEOUT tr)
                      (channelState ?cid tr)))"
    using view nm r by simp
  have la: "lastActivity (channelState ?cid tr') = now"
    using v by (simp add: classificationView_def split: if_splits)
  have own: "lastGorpMessage (channelState ?cid tr') = now \<and> isActive (channelState ?cid tr')"
    if "Some (author_id message) = user_id cl"
    using v that by (simp add: classificationView_def)
  have q: "pendingMessages (channelState ?cid tr') = pendingMessages (channelState ?cid tr)"
    if "\<not> forward"
    using queue that r by simp
  show ?thesis
    using nm f la own q by (simp add: Let_def r)
qed

theorem empty_message_not_enqueued_witness:
  "isEmptyMessage (example_message (utf16 ''7'') (utf16 ''c1'') [0xA0, 0x20, 0x2028, 0xFEFF]) \<and>
   (let (forward, tr') = shouldForwardImmediately example_client example_io 1000050
                           (example_message (utf16 ''7'') (utf16 ''c1'') [0xA0, 0x20, 0x2028, 0xFEFF])
                           backlog_tracker;
        after = channelState (utf16 ''c1'') tr'
    in \<not> forward \<and> lastActivity after = 1000050 \<and>
       pendingMessages after = pendingMessages (channelState (utf16 ''c1'') backlog_tracker)) \<and>
   isEmptyMessage (example_message (utf16 ''42'') (utf16 ''c1'') [0xA0, 0x20, 0x2028, 0xFEFF]) \<and>
   Some (author_id (example_message (utf16 ''42'') (utf16 ''c1'') [0xA0, 0x20, 0x2028, 0xFEFF])) =
     user_id example_client \<and>
   (let (forward, tr') = shouldForwardImmediately example_client example_io 1000050
                           (example_message (utf16 ''42'') (utf16 ''c1'') [0xA0, 0x20, 0x2028, 0xFEFF])
                           backlog_tracker;
        after = channelState (utf16 ''c1'') tr'
    in forward \<and> lastGorpMessage after = 1000050 \<and> isActive after)"
proof -
  let ?blank = "[0xA0, 0x20, 0x2028, 0xFEFF] :: jsstring"
  have e: "isEmptyMessage (example_message a (utf16 ''c1'') ?blank)" for a
    by (simp add: isEmptyMessage_def example_message_fields trim_def isWhiteSpace_def)
  have nr: "\<not> withinInteractionTimeout 1000050 (GORP_INTERACTION_TIMEOUT backlog_tracker)
              (channelState (utf16 ''c1'') backlog_tracker)"
    by (simp add: backlog_c1 withinInteractionTimeout_def example_activity_def)
  have a1: "Some (author_id (example_message (utf16 ''42'') (utf16 ''c1'') ?blank)) = user_id example_client"
    and a2: "Some (author_id (example_message (utf16 ''7'') (utf16 ''c1'') ?blank)) \<noteq> user_id example_client"
    by (simp_all add: example_message_fields example_client_def utf16_def)
  show ?thesis
    using e [of "(utf16 ''7'')"] e [of "(utf16 ''42'')"] a1 a2 nr
      empty_message_not_enqueued [OF e [of "(utf16 ''7'')"],
        where tr = backlog_tracker and now = 1000050 and io = example_io and cl = example_client]
      empty_message_not_enqueued [OF e [of "(utf16 ''42'')"],
        where tr = backlog_tracker and now = 1000050 and io = example_io and cl = example_client]
    by (simp add: Let_def example_message_fields split: prod.splits)
qed

text \<open>
  C10. The classification does not depend on the rate limiter: with any two rate
  limiters (and whatever the outside world answers to a flush), the value that
  \<open>shouldForwardImmediately\<close> returns is the same, and so are, for every channel, the
  three time stamps and the flag it leaves. When the rate limiter denies the flush
  that a call starts, the call makes no request to the Letta service. The same holds
  once the suspended flushes have settled: the stamps and the flags are the same in
  the two runs, and a denied flush has made no request.
\<close>

theorem classification_independent_of_rate_limiter:
  "(let r1 = shouldForwardImmediately cl io1 now message (tr\<lparr>rateLimiter := rl1\<rparr>);
        r2 = shouldForwardImmediately cl io2 now message (tr\<lparr>rateLimiter := rl2\<rparr>)
    in fst r1 = fst r2 \<and>
       (\<forall>c. map_option classificationView (getChannelActivity c (snd r1)) =
            map_option classificationView (getChannelActivity c (snd r2))) \<and>
       (\<not> flushAdmitted io1 (tr\<lparr>rateLimiter := rl1\<rparr>) \<longrightarrow>
          lettaRequests (snd r1) = lettaRequests tr) \<and>
       (\<forall>c. map_option classificationView (getChannelActivity c (settleFlushes io1 (snd r1))) =
            map_option classificationView (getChannelActivity c (settleFlushes io2 (snd r2)))) \<and>
       (suspendedFlushes tr = [] \<and> \<not> flushAdmitted io1 (tr\<lparr>rateLimiter := rl1\<rparr>) \<longrightarrow>
          lettaRequests (settleFlushes io1 (snd r1)) = lettaRequests tr))"
proof -
  let ?tr = "tr\<lparr>rateLimiter := rl1\<rparr>"
  let ?r1 = "shouldForwardImmediately cl io1 now message ?tr"
  have cs: "channelState c (tr\<lparr>rateLimiter := rl\<rparr>) = channelState c tr" for c rl
    by (simp add: channelState_def getOrCreateChannelActivity_def Let_def split: option.splits)
  have ga: "getChannelActivity c (tr\<lparr>rateLimiter := rl\<rparr>) = getChannelActivity c tr" for c rl
    by (simp add: getChannelActivity_def)
  have req: "lettaRequests (snd ?r1) = lettaRequests tr"
    if denied: "\<not> flushAdmitted io1 ?tr"
  proof -
    obtain a tr1 where g: "getOrCreateChannelActivity (channel_id message) ?tr = (a, tr1)"
      by (cases "getOrCreateChannelActivity (channel_id message) ?tr")
    note g' = getOrCreate_activity [OF g]
    have d1: "\<not> flushAdmitted io1 tr1"
      using denied g' by (simp add: flushAdmitted_def)
    have reqs1: "lettaRequests tr1 = lettaRequests tr"
      using g' by simp
    show ?thesis
    proof (cases "isGorpMentioned cl message")
      case True
      show ?thesis
        using mention_branch [OF True g refl, where io = io1 and now = now] d1 reqs1
        by (simp add: sendBatchUpdate_start_denied)
    next
      case False
      show ?thesis
      proof (cases "Some (author_id message) = user_id cl")
        case True
        then show ?thesis
          using self_branch [OF False True g] reqs1 by simp
      next
        case notself: False
        obtain a3 tr3 where add:
          "addPendingMessage io1 (a\<lparr>lastActivity := now, isActive := False\<rparr>) message
             (tr1\<lparr>console := console tr1 @ [InteractionTimeoutExpired (channel_id message)]\<rparr>)
           = (a3, tr3)"
          by (cases "addPendingMessage io1 (a\<lparr>lastActivity := now, isActive := False\<rparr>) message
             (tr1\<lparr>console := console tr1 @ [InteractionTimeoutExpired (channel_id message)]\<rparr>)")
        show ?thesis
          using other_branch [OF False notself g add] reqs1 addPendingMessage_frame [OF add]
          by simp
      qed
    qed
  qed
  have req_settled: "lettaRequests (settleFlushes io1 (snd ?r1)) = lettaRequests tr"
    if idle: "suspendedFlushes tr = []" and denied: "\<not> flushAdmitted io1 ?tr"
  proof (cases "isGorpMentioned cl message")
    case True
    have "suspendedFlushes ?tr = []"
      using idle by simp
    from mention_settled [OF True this, where io = io1 and now = now] denied
    show ?thesis
      by (simp add: Let_def)
  next
    case False
    have "suspendedFlushes (snd ?r1) = []"
      using classification_flushes [OF False, where io = io1 and now = now and tr = ?tr] idle
      by simp
    then have "settleFlushes io1 (snd ?r1) = snd ?r1"
      by (rule settleFlushes_Nil)
    then show ?thesis
      using req [OF denied] by simp
  qed
  show ?thesis
    using req req_settled
    by (simp add: Let_def classification_result settleFlushes_view cs ga)
qed

theorem classification_independent_of_rate_limiter_witness:
  "suspendedFlushes backlog_tracker = [] \<and>
   \<not> flushAdmitted example_io
       (backlog_tracker\<lparr>rateLimiter := rateLimiter exhausted_tracker\<rparr>) \<and>
   flushAdmitted example_io
       (backlog_tracker\<lparr>rateLimiter := rateLimiter backlog_tracker\<rparr>) \<and>
   (let r1 = shouldForwardImmediately example_client example_io 1000050
               (example_message (utf16 ''7'') (utf16 ''c1'') (utf16 ''hey gorp''))
               (backlog_tracker\<lparr>rateLimiter := rateLimiter exhausted_tracker\<rparr>);
        r2 = shouldForwardImmediately example_client example_io 1000050
               (example_message (utf16 ''7'') (utf16 ''c1'') (utf16 ''hey gorp''))
               (backlog_tracker\<lparr>rateLimiter := rateLimiter backlog_tracker\<rparr>)
    in fst r1 = fst r2 \<and>
       (\<forall>c. map_option classificationView (getChannelActivity c (snd r1)) =
            map_option classificationView (getChannelActivity c (snd r2))) \<and>
       lettaRequests (snd r1) = lettaRequests backlog_tracker \<and>
       (\<forall>c. map_option classificationView
              (getChannelActivity c (settleFlushes example_io (snd r1))) =
            map_option classificationView
              (getChannelActivity c (settleFlushes example_io (snd r2)))) \<and>
       lettaRequests (settleFlushes example_io (snd r1)) = lettaRequests backlog_tracker)"
proof -
  have d: "\<not> flushAdmitted example_io
       (backlog_tracker\<lparr>rateLimiter := rateLimiter exhausted_tracker\<rparr>)"
    by (simp add: flushAdmitted_def canSendMessage_def example_io_def exhausted_tracker_def
        windowMs_def)
  have a: "flushAdmitted example_io
       (backlog_tracker\<lparr>rateLimiter := rateLimiter backlog_tracker\<rparr>)"
    by (simp add: flushAdmitted_def canSendMessage_def example_io_def backlog_tracker_def
        example_tracker_def new_ActivityTracker_def new_RateLimiter_def)
  show ?thesis
    using d a backlog_idle classification_independent_of_rate_limiter
      [where cl = example_client and ?io1.0 = example_io and ?io2.0 = example_io
         and now = 1000050 and message = "example_message (utf16 ''7'') (utf16 ''c1'') (utf16 ''hey gorp'')"
         and tr = backlog_tracker and ?rl1.0 = "rateLimiter exhausted_tracker"
         and ?rl2.0 = "rateLimiter backlog_tracker"]
    by (simp add: Let_def)
qed

section \<open>The scheduled flush\<close>

lemma processChannel_skip:
  "\<not> eligibleForScheduledFlush now (BATCH_INTERVAL tr) a \<Longrightarrow>
     processChannel cl io now cid a tr = (a, tr)"
  by (auto simp: processChannel_def eligibleForScheduledFlush_def)

text \<open>
  The three ways in which the handling of an eligible channel ends: the rate limiter
  denies the send, the request fails, or the request succeeds and the queue is cleared.
\<close>

lemma processChannel_attempt:
  assumes "eligibleForScheduledFlush now (BATCH_INTERVAL tr) a"
    and "processChannel cl io now cid a tr = (a', tr')"
  shows "BATCH_INTERVAL tr' = BATCH_INTERVAL tr \<and>
         (\<exists>ev. console tr' = console tr @ [ev] \<and> scheduledFlushChannel ev = Some cid) \<and>
         (if \<not> flushAdmitted io tr
          then a' = a \<and> lettaRequests tr' = lettaRequests tr
          else lettaRequests tr' = lettaRequests tr @ [scheduledDigest cl io a] \<and>
               a' = (if isl (processQuery io (fst (scheduledDigest cl io a))
                               (snd (scheduledDigest cl io a)))
                     then a else a\<lparr>pendingMessages := []\<rparr>))"
  using assms
  by (auto simp: processChannel_def eligibleForScheduledFlush_def createBatchSummary_def
      flushAdmitted_def scheduledDigest_def Let_def split: prod.splits sum.splits)

lemma processEntries_append:
  "processEntries cl ios now (xs @ ys) tr =
     (let (xs', tr1) = processEntries cl ios now xs tr;
          (ys', tr2) = processEntries cl ios now ys tr1
      in (xs' @ ys', tr2))"
  by (induction xs arbitrary: tr) (auto simp: Let_def split: prod.splits)

lemma processEntries_spec:
  assumes "processEntries cl ios now es tr = (es', tr')"
  shows "BATCH_INTERVAL tr' = BATCH_INTERVAL tr \<and>
         (\<exists>evs. console tr' = console tr @ evs \<and>
            List.map_filter scheduledFlushChannel evs =
              map fst (filter (\<lambda>(c, a). eligibleForScheduledFlush now (BATCH_INTERVAL tr) a) es)) \<and>
         (\<exists>reqs. lettaRequests tr' = lettaRequests tr @ reqs \<and>
            (\<forall>r\<in>set reqs. \<exists>(c, a)\<in>set es.
               eligibleForScheduledFlush now (BATCH_INTERVAL tr) a \<and>
               r = scheduledDigest cl (ios c) a)) \<and>
         length es' = length es \<and>
         (\<forall>i<length es. fst (es' ! i) = fst (es ! i) \<and>
            (\<not> eligibleForScheduledFlush now (BATCH_INTERVAL tr) (snd (es ! i)) \<longrightarrow>
               es' ! i = es ! i))"
  using assms
proof (induction es arbitrary: tr es' tr')
  case Nil
  then show ?case by (simp add: List.map_filter_simps)
next
  case (Cons e es)
  obtain cid a where e: "e = (cid, a)" by (cases e)
  obtain a1 tr1 where step: "processChannel cl (ios cid) now cid a tr = (a1, tr1)"
    by (cases "processChannel cl (ios cid) now cid a tr")
  obtain es1 tr2 where rest: "processEntries cl ios now es tr1 = (es1, tr2)"
    by (cases "processEntries cl ios now es tr1")
  from Cons.prems e step rest have res: "es' = (cid, a1) # es1" "tr' = tr2"
    by simp_all
  note IH = Cons.IH [OF rest]
  have head: "BATCH_INTERVAL tr1 = BATCH_INTERVAL tr \<and>
      (\<exists>evs. console tr1 = console tr @ evs \<and>
         List.map_filter scheduledFlushChannel evs =
           (if eligibleForScheduledFlush now (BATCH_INTERVAL tr) a then [cid] else [])) \<and>
      (\<exists>reqs. lettaRequests tr1 = lettaRequests tr @ reqs \<and>
         set reqs \<subseteq> (if eligibleForScheduledFlush now (BATCH_INTERVAL tr) a
                       then {scheduledDigest cl (ios cid) a} else {})) \<and>
      (\<not> eligibleForScheduledFlush now (BATCH_INTERVAL tr) a \<longrightarrow> a1 = a)"
  proof (cases "eligibleForScheduledFlush now (BATCH_INTERVAL tr) a")
    case True
    from processChannel_attempt [OF True step] show ?thesis
      using True by (auto simp: List.map_filter_simps split: if_splits)
  next
    case False
    with step show ?thesis by (simp add: processChannel_skip List.map_filter_simps)
  qed
  then obtain evs0 reqs0 where
    int1: "BATCH_INTERVAL tr1 = BATCH_INTERVAL tr"
    and evs0: "console tr1 = console tr @ evs0"
      "List.map_filter scheduledFlushChannel evs0 =
         (if eligibleForScheduledFlush now (BATCH_INTERVAL tr) a then [cid] else [])"
    and reqs0: "lettaRequests tr1 = lettaRequests tr @ reqs0"
      "set reqs0 \<subseteq> (if eligibleForScheduledFlush now (BATCH_INTERVAL tr) a
                       then {scheduledDigest cl (ios cid) a} else {})"
    and keep: "\<not> eligibleForScheduledFlush now (BATCH_INTERVAL tr) a \<longrightarrow> a1 = a"
    by blast
  from IH int1 obtain evs1 reqs1 where
    int2: "BATCH_INTERVAL tr2 = BATCH_INTERVAL tr"
    and evs1: "console tr2 = console tr1 @ evs1"
      "List.map_filter scheduledFlushChannel evs1 =
         map fst (filter (\<lambda>(c, a). eligibleForScheduledFlush now (BATCH_INTERVAL tr) a) es)"
    and reqs1: "lettaRequests tr2 = lettaRequests tr1 @ reqs1"
      "\<forall>r\<in>set reqs1. \<exists>(c, a)\<in>set es.
         eligibleForScheduledFlush now (BATCH_INTERVAL tr) a \<and> r = scheduledDigest cl (ios c) a"
    and len: "length es1 = length es"
    and ents: "\<forall>i<length es. fst (es1 ! i) = fst (es ! i) \<and>
            (\<not> eligibleForScheduledFlush now (BATCH_INTERVAL tr) (snd (es ! i)) \<longrightarrow>
               es1 ! i = es ! i)"
    by auto
  have c1: "console tr' = console tr @ (evs0 @ evs1) \<and>
        List.map_filter scheduledFlushChannel (evs0 @ evs1) =
          map fst (filter (\<lambda>(c, a). eligibleForScheduledFlush now (BATCH_INTERVAL tr) a) (e # es))"
    using evs0 evs1 res e by (simp add: List.map_filter_def)
  have c2: "lettaRequests tr' = lettaRequests tr @ (reqs0 @ reqs1) \<and>
        (\<forall>r\<in>set (reqs0 @ reqs1). \<exists>(c, a)\<in>set (e # es).
           eligibleForScheduledFlush now (BATCH_INTERVAL tr) a \<and>
           r = scheduledDigest cl (ios c) a)"
  proof -
    have "\<forall>r\<in>set reqs0. eligibleForScheduledFlush now (BATCH_INTERVAL tr) a \<and>
            r = scheduledDigest cl (ios cid) a"
      using reqs0(2) by (auto split: if_splits)
    then have "\<forall>r\<in>set reqs0. \<exists>(c, a)\<in>set (e # es).
           eligibleForScheduledFlush now (BATCH_INTERVAL tr) a \<and>
           r = scheduledDigest cl (ios c) a"
      using e by auto
    moreover have "\<forall>r\<in>set reqs1. \<exists>(c, a)\<in>set (e # es).
           eligibleForScheduledFlush now (BATCH_INTERVAL tr) a \<and>
           r = scheduledDigest cl (ios c) a"
      using reqs1(2) by fastforce
    ultimately show ?thesis
      using reqs0(1) reqs1(1) res by auto
  qed
  have c3: "\<forall>i<length (e # es). fst (es' ! i) = fst ((e # es) ! i) \<and>
            (\<not> eligibleForScheduledFlush now (BATCH_INTERVAL tr) (snd ((e # es) ! i)) \<longrightarrow>
               es' ! i = (e # es) ! i)"
  proof (intro allI impI)
    fix i assume "i < length (e # es)"
    then show "fst (es' ! i) = fst ((e # es) ! i) \<and>
            (\<not> eligibleForScheduledFlush now (BATCH_INTERVAL tr) (snd ((e # es) ! i)) \<longrightarrow>
               es' ! i = (e # es) ! i)"
      using ents keep res e by (cases i) auto
  qed
  show ?case
    using int2 c1 c2 c3 len res by (simp only: length_Cons) blast
qed


lemma example_tick:
  "processBatchUpdates example_client (\<lambda>c. example_io) 1000070 four_channel_tracker =
     four_channel_tracker
       \<lparr>channelActivities :=
          [((utf16 ''c1''), example_activity (utf16 ''c1'') []),
           ((utf16 ''c2''), (example_activity (utf16 ''c2'') [example_pending])\<lparr>isActive := True\<rparr>),
           ((utf16 ''c3''), (example_activity (utf16 ''c3'') [example_pending])\<lparr>lastActivity := 1000\<rparr>),
           ((utf16 ''c4''), example_activity (utf16 ''c4'') [])],
        rateLimiter := \<lparr>messageTimestamps = [1000600], maxMessagesPerHour = 3\<rparr>,
        console := [ScheduledBatchSent (utf16 ''c1'') 1 0],
        lettaRequests :=
          [((utf16 ''[Discord Batch Update] 1 messages in #general over the past few seconds:'')
            @ [0x0A, 0x0A] @ (utf16 ''[messageId: m0] bob in #general: hello''), [])]\<rparr>"
  by (simp add: processBatchUpdates_def four_channel_tracker_def
      new_ActivityTracker_def new_RateLimiter_def processChannel_def example_activity_def
      example_pending_def createBatchSummary_def batchSummaryText_def formatTimeRange_def
      example_io_def example_client_def canSendMessage_def recordMessageSent_def
      processQuery_def pendingImages_def show_nat_digit Let_def utf16_def)


section \<open>Failed and denied flushes\<close>

lemma sendBatchUpdate_keeps:
  assumes "\<not> flushAdmitted io tr \<or>
           isl (processQuery io (fst (mentionDigest cl io activity m))
                  (snd (mentionDigest cl io activity m)))"
  shows "fst (sendBatchUpdate cl io activity m tr) = activity"
  using assms by (auto simp: sendBatchUpdate_activity)

lemma processChannel_keeps:
  assumes "\<not> flushAdmitted io tr \<or>
           isl (processQuery io (fst (scheduledDigest cl io a)) (snd (scheduledDigest cl io a)))"
  shows "fst (processChannel cl io now cid a tr) = a"
proof (cases "eligibleForScheduledFlush now (BATCH_INTERVAL tr) a")
  case True
  obtain a' tr' where p: "processChannel cl io now cid a tr = (a', tr')"
    by (cases "processChannel cl io now cid a tr")
  from processChannel_attempt [OF True p] assms have "a' = a"
    by (auto split: if_splits)
  with p show ?thesis by simp
next
  case False
  then show ?thesis by (simp add: processChannel_skip)
qed


lemma failing_io_fails: "isl (processQuery failing_io q imgs)"
  by (simp add: processQuery_def failing_io_def)

lemma exhausted_denied: "\<not> flushAdmitted example_io exhausted_tracker"
  by (simp add: flushAdmitted_def canSendMessage_def example_io_def exhausted_tracker_def
      windowMs_def)

lemma exhausted_c1:
  "channelState (utf16 ''c1'') exhausted_tracker = example_activity (utf16 ''c1'') [example_pending]"
  by (simp add: channelState_def getOrCreateChannelActivity_def exhausted_tracker_def
      backlog_tracker_def example_pending_def)

lemma failed_tick:
  "channelActivities
     (processBatchUpdates example_client
        (\<lambda>c. if c = (utf16 ''c1'') then failing_io else example_io) 1000070 two_channel_tracker) =
     [((utf16 ''c1''), example_activity (utf16 ''c1'') [example_pending]), ((utf16 ''c2''), example_activity (utf16 ''c2'') [])]"
  by (simp add: processBatchUpdates_def two_channel_tracker_def example_tracker_def
      new_ActivityTracker_def new_RateLimiter_def processChannel_def example_activity_def
      example_pending_def createBatchSummary_def failing_io_def
      example_io_def canSendMessage_def recordMessageSent_def
      processQuery_def Let_def utf16_def)

lemma backlog_failing_digest:
  "isl (processQuery failing_io
         (fst (mentionDigest example_client failing_io
                 ((channelState (utf16 ''c1'') backlog_tracker)\<lparr>lastActivity := 1000050\<rparr>)
                 (example_message (utf16 ''7'') (utf16 ''c1'') (utf16 ''hey gorp''))))
         (snd (mentionDigest example_client failing_io
                 ((channelState (utf16 ''c1'') backlog_tracker)\<lparr>lastActivity := 1000050\<rparr>)
                 (example_message (utf16 ''7'') (utf16 ''c1'') (utf16 ''hey gorp'')))))"
  by (rule failing_io_fails)


section \<open>The mention test\<close>

text \<open>
  The two string searches of \<open>isGorpMentioned\<close>, said without recursion: \<open>str_includes\<close>
  finds a substring, and the test of the pattern finds the four letters of gorp, in
  any case, with no word character on either side.
\<close>

lemma str_includes_iff:
  "str_includes s p \<longleftrightarrow> (\<exists>pre post. s = pre @ p @ post)"
proof (induction s)
  case Nil
  then show ?case by auto
next
  case (Cons c cs)
  have here: "startsWith (c # cs) p \<longleftrightarrow> (\<exists>post. c # cs = p @ post)"
  proof
    assume "startsWith (c # cs) p"
    then have "c # cs = p @ drop (length p) (c # cs)"
      by (metis append_take_drop_id startsWith_def)
    then show "\<exists>post. c # cs = p @ post" ..
  next
    assume "\<exists>post. c # cs = p @ post"
    then show "startsWith (c # cs) p"
      by (auto simp: startsWith_def)
  qed
  show ?case
  proof
    assume "str_includes (c # cs) p"
    then consider "startsWith (c # cs) p" | "str_includes cs p" by auto
    then show "\<exists>pre post. c # cs = pre @ p @ post"
    proof cases
      case 1
      with here obtain post where "c # cs = [] @ p @ post" by auto
      then show ?thesis by blast
    next
      case 2
      with Cons.IH obtain pre post where "cs = pre @ p @ post" by auto
      then have "c # cs = (c # pre) @ p @ post" by simp
      then show ?thesis by blast
    qed
  next
    assume "\<exists>pre post. c # cs = pre @ p @ post"
    then obtain pre post where d: "c # cs = pre @ p @ post" by auto
    show "str_includes (c # cs) p"
    proof (cases pre)
      case Nil
      with d have "\<exists>post. c # cs = p @ post" by auto
      with here have "startsWith (c # cs) p" by blast
      then show ?thesis by simp
    next
      case (Cons x pre')
      with d have "cs = pre' @ p @ post" by simp
      with Cons.IH have "str_includes cs p" by blast
      then show ?thesis by simp
    qed
  qed
qed

lemma gorpPattern_from_iff:
  "gorpPattern_from prevWord s \<longleftrightarrow>
     (\<exists>pre w post. s = pre @ w @ post \<and> map canonicalize w = map canonicalize (utf16 ''gorp'') \<and>
        (if pre = [] then \<not> prevWord else \<not> isWordChar (last pre)) \<and>
        (post = [] \<or> \<not> isWordChar (hd post)))"
proof (induction s arbitrary: prevWord)
  case Nil
  then show ?case by (auto simp: utf16_def)
next
  case (Cons c cs)
  have len: "length w = 4"
    if "map canonicalize w = map canonicalize (utf16 ''gorp'')" for w
    using that by (auto simp: utf16_def dest: arg_cong [where f = length])
  have after: "(case post of [] \<Rightarrow> True | d # _ \<Rightarrow> \<not> isWordChar d) \<longleftrightarrow>
                 (post = [] \<or> \<not> isWordChar (hd post))" for post
    by (cases post) auto
  show ?case
  proof
    assume "gorpPattern_from prevWord (c # cs)"
    then consider
      (here) "\<not> prevWord" "map canonicalize (take 4 (c # cs)) = map canonicalize (utf16 ''gorp'')"
        "drop 4 (c # cs) = [] \<or> \<not> isWordChar (hd (drop 4 (c # cs)))"
      | (later) "gorpPattern_from (isWordChar c) cs"
      by (auto simp: after)
    then show "\<exists>pre w post. c # cs = pre @ w @ post \<and> map canonicalize w = map canonicalize (utf16 ''gorp'') \<and>
        (if pre = [] then \<not> prevWord else \<not> isWordChar (last pre)) \<and>
        (post = [] \<or> \<not> isWordChar (hd post))"
    proof cases
      case here
      have "c # cs = [] @ take 4 (c # cs) @ drop 4 (c # cs)" by simp
      with here show ?thesis by (metis (full_types))
    next
      case later
      with Cons.IH obtain pre w post where d: "cs = pre @ w @ post"
        "map canonicalize w = map canonicalize (utf16 ''gorp'')"
        "if pre = [] then \<not> isWordChar c else \<not> isWordChar (last pre)"
        "post = [] \<or> \<not> isWordChar (hd post)"
        by blast
      have "c # cs = (c # pre) @ w @ post" using d(1) by simp
      moreover have "\<not> isWordChar (last (c # pre))"
        using d(3) by (cases pre) auto
      ultimately show ?thesis
        using d(2,4) by (metis list.distinct(1))
    qed
  next
    assume "\<exists>pre w post. c # cs = pre @ w @ post \<and> map canonicalize w = map canonicalize (utf16 ''gorp'') \<and>
        (if pre = [] then \<not> prevWord else \<not> isWordChar (last pre)) \<and>
        (post = [] \<or> \<not> isWordChar (hd post))"
    then obtain pre w post where d: "c # cs = pre @ w @ post" "map canonicalize w = map canonicalize (utf16 ''gorp'')"
        "if pre = [] then \<not> prevWord else \<not> isWordChar (last pre)"
        "post = [] \<or> \<not> isWordChar (hd post)"
      by blast
    show "gorpPattern_from prevWord (c # cs)"
    proof (cases pre)
      case Nil
      with d(1) len [OF d(2)] have "take 4 (c # cs) = w" "drop 4 (c # cs) = post"
        by simp_all
      with d(2,3,4) Nil have "\<not> prevWord \<and> map canonicalize (take 4 (c # cs)) = map canonicalize (utf16 ''gorp'') \<and>
          (case drop 4 (c # cs) of [] \<Rightarrow> True | d # _ \<Rightarrow> \<not> isWordChar d)"
        using after [of post] by simp
      then show ?thesis
        by (simp only: gorpPattern_from.simps) blast
    next
      case (Cons x pre')
      with d(1) have x: "x = c" and cs: "cs = pre' @ w @ post" by simp_all
      have "if pre' = [] then \<not> isWordChar c else \<not> isWordChar (last pre')"
        using d(3) Cons x by (cases pre') auto
      with cs d(2,4) have "gorpPattern_from (isWordChar c) cs"
        using Cons.IH by blast
      then show ?thesis by simp
    qed
  qed
qed

lemma isGorpMentioned_iff:
  "isGorpMentioned cl message \<longleftrightarrow>
     (let text_lc = toLowerCase (content message);
          id = (case user_id cl of Some i \<Rightarrow> i | None \<Rightarrow> (utf16 ''undefined''))
      in (\<exists>pre post. text_lc = pre @ ((utf16 ''<@'') @ id @ (utf16 ''>'')) @ post) \<or>
         (\<exists>pre post. text_lc = pre @ ((utf16 ''<@!'') @ id @ (utf16 ''>'')) @ post) \<or>
         (\<exists>pre w post. text_lc = pre @ w @ post \<and> map canonicalize w = map canonicalize (utf16 ''gorp'') \<and>
            (pre = [] \<or> \<not> isWordChar (last pre)) \<and>
            (post = [] \<or> \<not> isWordChar (hd post))))"
proof -
  have start: "(if pre = [] then \<not> False else \<not> isWordChar (last pre)) \<longleftrightarrow>
                 (pre = [] \<or> \<not> isWordChar (last pre))" for pre
    by simp
  have pattern: "gorpPattern_test s \<longleftrightarrow>
          (\<exists>pre w post. s = pre @ w @ post \<and> map canonicalize w = map canonicalize (utf16 ''gorp'') \<and>
            (pre = [] \<or> \<not> isWordChar (last pre)) \<and>
            (post = [] \<or> \<not> isWordChar (hd post)))" for s
    unfolding gorpPattern_test_def gorpPattern_from_iff start by (rule refl)
  have ite: "(if c then True else g) \<longleftrightarrow> (c \<or> g)" for c g
    by simp
  show ?thesis
    unfolding isGorpMentioned_def Let_def ite str_includes_iff pattern disj_assoc
    by (rule refl)
qed

section \<open>The channel table\<close>

text \<open>
  The table is a \<^verbatim>\<open>Map\<close>: its keys stay distinct, a message adds at most the entry of
  its channel, and a tick of the scheduler keeps the keys and their order.
\<close>

lemma getOrCreate_keys:
  assumes "getOrCreateChannelActivity cid tr = (a, tr1)"
    and "distinct (map fst (channelActivities tr))"
  shows "distinct (map fst (channelActivities tr1))"
proof (cases "map_of (channelActivities tr) cid")
  case None
  then have "cid \<notin> fst ` set (channelActivities tr)"
    by (simp add: map_of_eq_None_iff)
  with assms None show ?thesis
    by (auto simp: getOrCreateChannelActivity_def Let_def)
next
  case (Some b)
  with assms show ?thesis
    by (auto simp: getOrCreateChannelActivity_def)
qed

lemma shouldForwardImmediately_table:
  "\<exists>a a' tr1. getOrCreateChannelActivity (channel_id message) tr = (a, tr1) \<and>
     channelActivities (snd (shouldForwardImmediately cl io now message tr)) =
       AList.update (channel_id message) a' (channelActivities tr1)"
proof -
  obtain a tr1 where g: "getOrCreateChannelActivity (channel_id message) tr = (a, tr1)"
    by (cases "getOrCreateChannelActivity (channel_id message) tr")
  show ?thesis
  proof (cases "isGorpMentioned cl message")
    case True
    define tr2 where "tr2 = (if length (pendingMessages a) > 0
                then sendBatchUpdate_start cl io (channel_id message) (a\<lparr>lastActivity := now\<rparr>)
                       message tr1
                else tr1)"
    have "channelActivities tr2 = channelActivities tr1"
      by (simp add: tr2_def sendBatchUpdate_start_frame)
    then show ?thesis
      using mention_branch [OF True g tr2_def] g by (simp add: storeChannelActivity_def) blast
  next
    case False
    show ?thesis
    proof (cases "Some (author_id message) = user_id cl")
      case True
      show ?thesis
        using self_branch [OF False True g] g by (simp add: storeChannelActivity_def) blast
    next
      case notself: False
      obtain a3 tr3 where add:
        "addPendingMessage io (a\<lparr>lastActivity := now, isActive := False\<rparr>) message
           (tr1\<lparr>console := console tr1 @ [InteractionTimeoutExpired (channel_id message)]\<rparr>)
         = (a3, tr3)"
        by (cases "addPendingMessage io (a\<lparr>lastActivity := now, isActive := False\<rparr>) message
           (tr1\<lparr>console := console tr1 @ [InteractionTimeoutExpired (channel_id message)]\<rparr>)")
      show ?thesis
        using other_branch [OF False notself g add] g addPendingMessage_frame [OF add]
        by (auto simp: storeChannelActivity_def)
    qed
  qed
qed

lemma shouldForwardImmediately_keys:
  assumes "distinct (map fst (channelActivities tr))"
  shows "distinct (map fst (channelActivities (snd (shouldForwardImmediately cl io now message tr))))"
proof -
  from shouldForwardImmediately_table [of message tr cl io now]
  obtain a a' tr1 where g: "getOrCreateChannelActivity (channel_id message) tr = (a, tr1)"
    and t: "channelActivities (snd (shouldForwardImmediately cl io now message tr)) =
       AList.update (channel_id message) a' (channelActivities tr1)"
    by blast
  from getOrCreate_keys [OF g assms] show ?thesis
    by (simp add: t distinct_update)
qed

lemma processBatchUpdates_keys:
  "map fst (channelActivities (processBatchUpdates cl ios now tr)) =
     map fst (channelActivities tr)"
proof -
  obtain es' tr1 where p: "processEntries cl ios now (channelActivities tr) tr = (es', tr1)"
    by (cases "processEntries cl ios now (channelActivities tr) tr")
  from processEntries_spec [OF p] have "length es' = length (channelActivities tr)"
    and "\<forall>i<length (channelActivities tr). fst (es' ! i) = fst (channelActivities tr ! i)"
    by auto
  then have "map fst es' = map fst (channelActivities tr)"
    by (intro nth_equalityI) simp_all
  then show ?thesis
    using p by (simp add: processBatchUpdates_def)
qed

end
